theory Spec2Isabelle
  imports Main
begin

section \<open>Python text\<close>

text \<open>
  A Python \<open>str\<close> is a sequence of Unicode code points; a code point is a natural number.
  The methods \<open>str.isalnum\<close>, \<open>str.isspace\<close> and \<open>str.upper\<close> read the Unicode character
  database of the interpreter, which is not part of the repository. The database is a
  parameter of the model: \<open>isalnum U c\<close> and \<open>isspace U c\<close> are the methods on the
  one-character string \<open>c\<close>, and \<open>upper U c\<close> is the upper-case form of that string (one
  code point may expand to several). \<open>str.upper\<close> converts a string code point by code
  point.
\<close>

type_synonym pystr = "nat list"

record ucd =
  isalnum :: "nat \<Rightarrow> bool"
  isspace :: "nat \<Rightarrow> bool"
  upper :: "nat \<Rightarrow> pystr"

definition str_upper :: "ucd \<Rightarrow> pystr \<Rightarrow> pystr" where
  "str_upper U s = concat (map (upper U) s)"

definition str_strip :: "ucd \<Rightarrow> pystr \<Rightarrow> pystr" where
  "str_strip U s = rev (dropWhile (isspace U) (rev (dropWhile (isspace U) s)))"

text \<open>
  On the ASCII range the database is known in full: the letters and digits are
  alphanumeric, the white space is TAB, LF, VT, FF, CR, the four separators FS, GS, RS, US
  and the blank, and upper-casing subtracts 32 from a lower-case letter.
\<close>

definition ascii_isalnum :: "nat \<Rightarrow> bool" where
  "ascii_isalnum c = ((48 \<le> c \<and> c \<le> 57) \<or> (65 \<le> c \<and> c \<le> 90) \<or> (97 \<le> c \<and> c \<le> 122))"

definition ascii_isspace :: "nat \<Rightarrow> bool" where
  "ascii_isspace c = ((9 \<le> c \<and> c \<le> 13) \<or> (28 \<le> c \<and> c \<le> 32))"

definition ascii_upper :: "nat \<Rightarrow> nat" where
  "ascii_upper c = (if 97 \<le> c \<and> c \<le> 122 then c - 32 else c)"

definition ascii_tables :: "ucd \<Rightarrow> bool" where
  "ascii_tables U = (\<forall>c<128. isalnum U c = ascii_isalnum c \<and> isspace U c = ascii_isspace c
      \<and> upper U c = [ascii_upper c])"

definition isascii :: "pystr \<Rightarrow> bool" where
  "isascii s = list_all (\<lambda>c. c < 128) s"

text \<open>
  Three facts hold of every code point of the database, in ASCII and beyond: the upper-case
  form of a code point is its own upper-case form; no alphanumeric code point is white
  space; and the upper-case form of a code point that is not white space is not empty and
  neither begins nor ends with white space.
\<close>

definition casing_tables :: "ucd \<Rightarrow> bool" where
  "casing_tables U =
     ((\<forall>c. str_upper U (upper U c) = upper U c)
      \<and> (\<forall>c. isalnum U c \<longrightarrow> \<not> isspace U c)
      \<and> (\<forall>c. \<not> isspace U c \<longrightarrow>
              upper U c \<noteq> [] \<and> \<not> isspace U (hd (upper U c)) \<and> \<not> isspace U (last (upper U c))))"

text \<open>
  \<open>cpython_ucd\<close> is a fragment of the database of CPython 3 (Unicode 14): it is exact on
  U+0000..U+007F and on the four code points U+00C9 (E acute), U+00E9 (e acute), U+01F0
  (j caron, whose upper case is J followed by the combining caron U+030C) and U+030C.
  The other entries are placeholders; statements about all inputs quantify over the
  database instead.
\<close>

definition cpython_ucd :: ucd where
  "cpython_ucd = \<lparr>
     isalnum = (\<lambda>c. if c < 128 then ascii_isalnum c else c = 0xC9 \<or> c = 0xE9 \<or> c = 0x1F0),
     isspace = (\<lambda>c. c < 128 \<and> ascii_isspace c),
     upper = (\<lambda>c. if c < 128 then [ascii_upper c]
                    else if c = 0xE9 then [0xC9]
                    else if c = 0x1F0 then [0x4A, 0x30C]
                    else [c]) \<rparr>"

section \<open>The identifier normalizer\<close>

text \<open>
  \<^verbatim>\<open>def normalize_uid(text): t = ''.join(c for c in text if c.isalnum()); return t.upper()\<close>
\<close>

definition normalize_uid :: "ucd \<Rightarrow> pystr \<Rightarrow> pystr" where
  "normalize_uid U text = (let t = filter (isalnum U) text in str_upper U t)"

text \<open>The upper-case letters and the digits of ASCII.\<close>

definition upper_alnum :: "nat \<Rightarrow> bool" where
  "upper_alnum c = ((48 \<le> c \<and> c \<le> 57) \<or> (65 \<le> c \<and> c \<le> 90))"

section \<open>The CSV store\<close>

text \<open>
  The files \<open>users.csv\<close> and \<open>absensi.csv\<close> are read and written through the \<open>csv\<close> module
  of the standard library, which is not part of the repository. A file is modelled by the
  sequence of records that \<open>csv.reader\<close> yields from it, a record being the list of its
  fields, and \<open>writerow\<close> adds one record at the end; the module reads back every record it
  wrote. The content \<open>Some []\<close> is the file of zero bytes and \<open>None\<close> is a path that does
  not exist. A file whose \<open>denied\<close> flag is set cannot be opened: \<open>open\<close> raises
  \<open>PermissionError\<close>. Text is taken to be encodable as UTF-8.

  \<open>users.csv\<close> is rewritten in full by every save: \<open>open(..., "w")\<close> empties the file before
  the first row is written, and a write that fails after that (the device is full) leaves
  only the records that fitted. \<open>users_room d\<close> is the number of records the device has
  room for when \<open>users.csv\<close> is rewritten, \<open>None\<close> when it has room for all; the failed write
  raises \<open>OSError\<close>. The log is only appended to, one short record at a time; the refused
  open is its one modelled failure.
\<close>

definition lit :: "string \<Rightarrow> pystr" where
  "lit s = map of_char s"

type_synonym row = "pystr list"

record csvfile =
  content :: "row list option"
  denied :: bool

record fs =
  users_csv :: csvfile
  log_csv :: csvfile
  users_room :: "nat option"

datatype error = KeyError pystr | AttributeError | FileNotFoundError | PermissionError | OSError

definition open_read :: "csvfile \<Rightarrow> error + row list" where
  "open_read f = (if denied f then Inl PermissionError
     else case content f of None \<Rightarrow> Inl FileNotFoundError | Some rows \<Rightarrow> Inr rows)"

text \<open>
  A row of \<open>csv.DictReader\<close> is a dictionary: \<open>item d k = None\<close> when the key \<open>k\<close> is
  missing, \<open>Some None\<close> when its value is Python's \<open>None\<close> (a row shorter than the header),
  and \<open>Some (Some v)\<close> for the string \<open>v\<close>; \<open>restkey d\<close> holds the surplus fields of a row longer
  than the header (stored under the key \<open>None\<close>). The first record of the file is the
  header, a later field name wins over an earlier equal one, and empty records are
  skipped.
\<close>

record dictrow =
  item :: "pystr \<Rightarrow> pystr option option"
  restkey :: "pystr list option"

definition dict_row :: "row \<Rightarrow> row \<Rightarrow> dictrow" where
  "dict_row fieldnames r =
     (let lf = length fieldnames; lr = length r;
          d = map_of (rev (zip fieldnames (map Some r)))
      in \<lparr> item = (\<lambda>k. if k \<in> set (drop lr fieldnames) then Some None else d k),
           restkey = (if lf < lr then Some (drop lf r) else None) \<rparr>)"

definition DictReader :: "row list \<Rightarrow> dictrow list" where
  "DictReader rows = (case rows of [] \<Rightarrow> []
     | fieldnames # rs \<Rightarrow> map (dict_row fieldnames) (filter (\<lambda>r. r \<noteq> []) rs))"

text \<open>A loop that builds a list and stops at the first exception.\<close>

fun collect :: "('a \<Rightarrow> error + 'b) \<Rightarrow> 'a list \<Rightarrow> error + 'b list" where
  "collect f [] = Inr []"
| "collect f (x # xs) = (case f x of Inl e \<Rightarrow> Inl e
     | Inr y \<Rightarrow> (case collect f xs of Inl e \<Rightarrow> Inl e | Inr ys \<Rightarrow> Inr (y # ys)))"

text \<open>
  A profile is the dictionary \<open>{"uid": ..., "nama": ..., "umur": ...}\<close>. The identifier is
  always a string; the name and the age are Python's \<open>None\<close> when they were read from a
  row that is too short.
\<close>

record user =
  uid :: pystr
  nama :: "pystr option"
  umur :: "pystr option"

text \<open>
  \<^verbatim>\<open>users.append({"uid": row["uid"].strip().upper(), "nama": row["nama"],
                "umur": row.get("umur", "")})\<close>
\<close>

definition user_of_row :: "ucd \<Rightarrow> dictrow \<Rightarrow> error + user" where
  "user_of_row U d =
     (case item d (lit ''uid'') of
        None \<Rightarrow> Inl (KeyError (lit ''uid''))
      | Some None \<Rightarrow> Inl AttributeError
      | Some (Some v) \<Rightarrow>
          (case item d (lit ''nama'') of
             None \<Rightarrow> Inl (KeyError (lit ''nama''))
           | Some n \<Rightarrow>
               Inr \<lparr> uid = str_upper U (str_strip U v), nama = n,
                     umur = (case item d (lit ''umur'') of None \<Rightarrow> Some [] | Some a \<Rightarrow> a) \<rparr>))"

definition load_users :: "ucd \<Rightarrow> fs \<Rightarrow> error + user list" where
  "load_users U d = (case open_read (users_csv d) of Inl e \<Rightarrow> Inl e
     | Inr rows \<Rightarrow> collect (user_of_row U) (DictReader rows))"

text \<open>The writer writes \<open>None\<close> as the empty field.\<close>

definition cell :: "pystr option \<Rightarrow> pystr" where
  "cell v = (case v of None \<Rightarrow> [] | Some s \<Rightarrow> s)"

definition users_header :: row where
  "users_header = [lit ''uid'', lit ''nama'', lit ''umur'']"

definition log_header :: row where
  "log_header = [lit ''uid'', lit ''nama'', lit ''waktu'']"

text \<open>
  \<^verbatim>\<open>with open(USERS_CSV, "w", ...) as f: writer.writeheader()
      for u in users: writer.writerow({"uid": u["uid"].upper(), "nama": u["nama"],
                                       "umur": u.get("umur", "")})\<close>
\<close>

text \<open>
  The result is the exception raised, if any, and the files as the call leaves them: as
  they were when the open is refused, with the rows that fitted when the device fills up.
\<close>

definition save_users :: "ucd \<Rightarrow> user list \<Rightarrow> fs \<Rightarrow> error option \<times> fs" where
  "save_users U us d =
     (if denied (users_csv d) then (Some PermissionError, d)
      else let rows = users_header # map (\<lambda>u. [str_upper U (uid u), cell (nama u), cell (umur u)]) us
           in case users_room d of
                None \<Rightarrow> (None, d\<lparr>users_csv := (users_csv d)\<lparr>content := Some rows\<rparr>\<rparr>)
              | Some k \<Rightarrow>
                  if length rows \<le> k
                  then (None, d\<lparr>users_csv := (users_csv d)\<lparr>content := Some rows\<rparr>\<rparr>)
                  else (Some OSError, d\<lparr>users_csv := (users_csv d)\<lparr>content := Some (take k rows)\<rparr>\<rparr>))"

text \<open>
  \<^verbatim>\<open>with open(LOG_CSV, "a", ...) as f:
      if f.tell() == 0: writer.writeheader()
      writer.writerow({"uid": uid.upper(), "nama": nama, "waktu": datetime.now().strftime(...)})\<close>
  A file opened for appending is created when it does not exist, and its position is its
  size: \<open>records_of\<close> are the records already there. The formatted time \<open>now\<close> comes from
  the clock.
\<close>

definition records_of :: "csvfile \<Rightarrow> row list" where
  "records_of f = (case content f of None \<Rightarrow> [] | Some rows \<Rightarrow> rows)"

definition append_log :: "ucd \<Rightarrow> pystr \<Rightarrow> pystr \<Rightarrow> pystr option \<Rightarrow> fs \<Rightarrow> error + fs" where
  "append_log U now uid' nama' d =
     (if denied (log_csv d) then Inl PermissionError
      else let old = records_of (log_csv d);
               hdr = (if old = [] then [log_header] else [])
           in Inr (d\<lparr>log_csv := (log_csv d)\<lparr>content :=
                Some (old @ hdr @ [[str_upper U uid', cell nama', now]])\<rparr>\<rparr>))"

text \<open>Python's \<open>xs[i:]\<close>: a negative start counts from the end, and the start is clamped.\<close>

definition slice_from :: "int \<Rightarrow> 'a list \<Rightarrow> 'a list" where
  "slice_from i xs =
     (let n = int (length xs); j = (if i < 0 then max (n + i) 0 else min i n)
      in drop (nat j) xs)"

text \<open>
  \<^verbatim>\<open>def load_logs(limit=None): ...; if limit: return logs[-limit:]; return logs\<close>
  The limit is \<open>None\<close> or an integer; the integer 0 is false.
\<close>

definition load_logs :: "int option \<Rightarrow> fs \<Rightarrow> error + dictrow list" where
  "load_logs limit d = (case open_read (log_csv d) of Inl e \<Rightarrow> Inl e
     | Inr rows \<Rightarrow>
         (let logs' = DictReader rows
          in case limit of None \<Rightarrow> Inr logs'
             | Some n \<Rightarrow> if n \<noteq> 0 then Inr (slice_from (- n) logs') else Inr logs'))"

text \<open>
  \<^verbatim>\<open>if not os.path.exists(PATH): with open(PATH, "w") ...: writer.writeheader()\<close>, for
  \<open>users.csv\<close> and then for the log. The result is the exception raised, if any, and the
  files as the call leaves them.
\<close>

definition ensure_files :: "fs \<Rightarrow> error option \<times> fs" where
  "ensure_files d =
     (if content (users_csv d) = None \<and> denied (users_csv d) then (Some PermissionError, d)
      else if content (users_csv d) = None \<and> users_room d = Some 0
      then (Some OSError, d\<lparr>users_csv := (users_csv d)\<lparr>content := Some []\<rparr>\<rparr>)
      else
        (let d1 = (if content (users_csv d) = None
                   then d\<lparr>users_csv := (users_csv d)\<lparr>content := Some [users_header]\<rparr>\<rparr> else d)
         in if content (log_csv d1) \<noteq> None then (None, d1)
            else if denied (log_csv d1) then (Some PermissionError, d1)
            else (None, d1\<lparr>log_csv := (log_csv d1)\<lparr>content := Some [log_header]\<rparr>\<rparr>)))"

section \<open>The serial reader\<close>

text \<open>
  One iteration of \<open>SerialReader.run\<close> reads a line and decodes it (\<open>errors="ignore"\<close>, so
  decoding never fails) or gets an exception from the port. The worker is run on the
  results of its reads up to the moment the stop flag is seen; a read that times out is
  the empty line. The result is the queue and whether \<open>on_error\<close> was called.
  \<^verbatim>\<open>line = self.ser.readline().decode(errors="ignore").strip()
  if line:
      uid = normalize_uid(line)
      if uid: self.out_queue.put(uid)\<close>
\<close>

datatype read = Line pystr | ReadError

fun reader_loop :: "ucd \<Rightarrow> read list \<Rightarrow> pystr list \<Rightarrow> pystr list \<times> bool" where
  "reader_loop U [] q = (q, False)"
| "reader_loop U (Line text # rs) q =
     (let line = str_strip U text
      in if line \<noteq> [] then
           (let uid' = normalize_uid U line
            in if uid' \<noteq> [] then reader_loop U rs (q @ [uid']) else reader_loop U rs q)
         else reader_loop U rs q)"
| "reader_loop U (ReadError # rs) q = (q, True)"

text \<open>The lines that the port delivered before its first exception.\<close>

fun lines_read :: "read list \<Rightarrow> pystr list" where
  "lines_read [] = []"
| "lines_read (Line text # rs) = text # lines_read rs"
| "lines_read (ReadError # rs) = []"

definition run :: "ucd \<Rightarrow> bool \<Rightarrow> read list \<Rightarrow> pystr list \<Rightarrow> pystr list \<times> bool" where
  "run U opened rs q = (if \<not> opened then (q, True) else reader_loop U rs q)"

section \<open>The application\<close>

text \<open>
  The state holds the attributes of \<open>App\<close> that the operations read and write, the two
  tables shown on screen, the number of bells rung, the message boxes shown, and the
  files. An operation returns the exception it raised, if any, with the state it left
  behind. The flashing of the label changes a colour only and is left out.
\<close>

datatype dialog = RequiredFields | UserUpdated | UserAdded | NothingSelected

record app =
  users :: "user list"
  logs :: "dictrow list"
  serial_queue :: "pystr list"
  uid_detected_var :: pystr
  uid_var :: pystr
  nama_var :: pystr
  umur_var :: pystr
  users_tree :: "(pystr \<times> pystr option \<times> pystr option) list"
  logs_tree :: "(pystr option \<times> pystr option \<times> pystr option) list"
  bells :: nat
  dialogs :: "dialog list"
  disk :: fs

text \<open>\<^verbatim>\<open>values=(row["waktu"], row["uid"], row["nama"])\<close>\<close>

definition log_values :: "dictrow \<Rightarrow> error + (pystr option \<times> pystr option \<times> pystr option)" where
  "log_values d =
     (case item d (lit ''waktu'') of None \<Rightarrow> Inl (KeyError (lit ''waktu''))
      | Some w \<Rightarrow> (case item d (lit ''uid'') of None \<Rightarrow> Inl (KeyError (lit ''uid''))
          | Some i \<Rightarrow> (case item d (lit ''nama'') of None \<Rightarrow> Inl (KeyError (lit ''nama''))
              | Some n \<Rightarrow> Inr (w, i, n))))"

fun fill_logs_tree :: "dictrow list \<Rightarrow> app \<Rightarrow> error option \<times> app" where
  "fill_logs_tree [] s = (None, s)"
| "fill_logs_tree (r # rs) s = (case log_values r of Inl e \<Rightarrow> (Some e, s)
     | Inr v \<Rightarrow> fill_logs_tree rs (s\<lparr>logs_tree := logs_tree s @ [v]\<rparr>))"

text \<open>
  \<^verbatim>\<open>def refresh_tables(self):
      self.users = CsvStore.load_users(); self.logs = CsvStore.load_logs()
      ... users table ...; for row in self.logs[-200:]: self.logs_tree.insert(...)\<close>
\<close>

definition refresh_tables :: "ucd \<Rightarrow> app \<Rightarrow> error option \<times> app" where
  "refresh_tables U s =
     (case load_users U (disk s) of Inl e \<Rightarrow> (Some e, s)
      | Inr us \<Rightarrow>
          (let s1 = s\<lparr>users := us\<rparr>
           in case load_logs None (disk s1) of Inl e \<Rightarrow> (Some e, s1)
              | Inr ls \<Rightarrow>
                  fill_logs_tree (slice_from (- 200) ls)
                    (s1\<lparr>logs := ls, users_tree := map (\<lambda>u. (uid u, nama u, umur u)) us,
                        logs_tree := []\<rparr>)))"

text \<open>
  \<^verbatim>\<open>def find_user_by_uid(self, uid):
      uid = normalize_uid(uid)
      for u in self.users:
          if normalize_uid(u["uid"]) == uid: return u
      return None\<close>
\<close>

definition find_user_by_uid :: "ucd \<Rightarrow> user list \<Rightarrow> pystr \<Rightarrow> user option" where
  "find_user_by_uid U us uid' =
     (let k = normalize_uid U uid' in find (\<lambda>u. normalize_uid U (uid u) = k) us)"

text \<open>
  \<^verbatim>\<open>def on_uid_received(self, uid):
      self.uid_detected_var.set(uid); self.flash_uid_label()
      user = self.find_user_by_uid(uid)
      if user: CsvStore.append_log(uid, user["nama"]); self.refresh_tables()
      else: self.uid_var.set(uid); self.bell()\<close>
\<close>

definition on_uid_received :: "ucd \<Rightarrow> pystr \<Rightarrow> pystr \<Rightarrow> app \<Rightarrow> error option \<times> app" where
  "on_uid_received U now uid' s =
     (let s1 = s\<lparr>uid_detected_var := uid'\<rparr>
      in case find_user_by_uid U (users s1) uid' of
           Some u \<Rightarrow>
             (case append_log U now uid' (nama u) (disk s1) of
                Inl e \<Rightarrow> (Some e, s1)
              | Inr d \<Rightarrow> refresh_tables U (s1\<lparr>disk := d\<rparr>))
         | None \<Rightarrow> (None, s1\<lparr>uid_var := uid', bells := Suc (bells s1)\<rparr>))"

text \<open>
  \<open>_poll_serial\<close> takes the queued identifiers one by one, in order, and handles each
  non-empty one; an exception of the handler ends the poll with the rest still queued.
  The \<open>k\<close>-th identifier taken is handled at the time \<open>now k\<close>.
\<close>

fun drain :: "ucd \<Rightarrow> (nat \<Rightarrow> pystr) \<Rightarrow> nat \<Rightarrow> pystr list \<Rightarrow> app \<Rightarrow> error option \<times> app" where
  "drain U now k [] s = (None, s\<lparr>serial_queue := []\<rparr>)"
| "drain U now k (uid' # q) s =
     (let s1 = s\<lparr>serial_queue := q\<rparr>
      in if uid' \<noteq> [] then
           (case on_uid_received U (now k) uid' s1 of
              (Some e, s2) \<Rightarrow> (Some e, s2)
            | (None, s2) \<Rightarrow> drain U now (Suc k) q s2)
         else drain U now (Suc k) q s1)"

definition poll_serial :: "ucd \<Rightarrow> (nat \<Rightarrow> pystr) \<Rightarrow> app \<Rightarrow> error option \<times> app" where
  "poll_serial U now s = drain U now 0 (serial_queue s) s"

text \<open>
  \<^verbatim>\<open>def form_save(self):
      uid = normalize_uid(self.uid_var.get()); nama = self.nama_var.get().strip()
      umur = self.umur_var.get().strip()
      if not uid or not nama: messagebox.showerror(...); return
      existing = self.find_user_by_uid(uid)
      if existing:
          for u in self.users:
              if normalize_uid(u["uid"]) == uid: u["nama"] = nama; u["umur"] = umur
          CsvStore.save_users(self.users); messagebox.showinfo(...)
      else:
          self.users.append({"uid": uid, "nama": nama, "umur": umur})
          CsvStore.save_users(self.users); messagebox.showinfo(...)
      self.refresh_tables()\<close>
\<close>

definition form_save :: "ucd \<Rightarrow> app \<Rightarrow> error option \<times> app" where
  "form_save U s =
     (let uid' = normalize_uid U (uid_var s);
          nama' = str_strip U (nama_var s);
          umur' = str_strip U (umur_var s)
      in if uid' = [] \<or> nama' = [] then (None, s\<lparr>dialogs := dialogs s @ [RequiredFields]\<rparr>)
         else
           (case find_user_by_uid U (users s) uid' of
              Some existing \<Rightarrow>
                (let s1 = s\<lparr>users := map (\<lambda>u. if normalize_uid U (uid u) = uid'
                                               then u\<lparr>nama := Some nama', umur := Some umur'\<rparr>
                                               else u) (users s)\<rparr>
                 in case save_users U (users s1) (disk s1) of
                      (Some e, d) \<Rightarrow> (Some e, s1\<lparr>disk := d\<rparr>)
                    | (None, d) \<Rightarrow>
                        refresh_tables U (s1\<lparr>disk := d, dialogs := dialogs s1 @ [UserUpdated]\<rparr>))
            | None \<Rightarrow>
                (let s1 = s\<lparr>users := users s @ [\<lparr>uid = uid', nama = Some nama', umur = Some umur'\<rparr>]\<rparr>
                 in case save_users U (users s1) (disk s1) of
                      (Some e, d) \<Rightarrow> (Some e, s1\<lparr>disk := d\<rparr>)
                    | (None, d) \<Rightarrow>
                        refresh_tables U (s1\<lparr>disk := d, dialogs := dialogs s1 @ [UserAdded]\<rparr>))))"

text \<open>
  \<open>delete_user\<close> reads the identifier shown in the selected row of the table (\<open>sel\<close>,
  \<open>None\<close> when no row is selected) and asks for confirmation (\<open>confirm\<close> is the answer).
  \<^verbatim>\<open>uid = normalize_uid(vals[0])
  if messagebox.askyesno(...):
      self.users = [u for u in self.users if normalize_uid(u["uid"]) != uid]
      CsvStore.save_users(self.users); self.refresh_tables()\<close>
\<close>

definition delete_user :: "ucd \<Rightarrow> pystr option \<Rightarrow> bool \<Rightarrow> app \<Rightarrow> error option \<times> app" where
  "delete_user U sel confirm s =
     (case sel of
        None \<Rightarrow> (None, s\<lparr>dialogs := dialogs s @ [NothingSelected]\<rparr>)
      | Some v \<Rightarrow>
          (let uid' = normalize_uid U v
           in if confirm then
                (let s1 = s\<lparr>users := filter (\<lambda>u. normalize_uid U (uid u) \<noteq> uid') (users s)\<rparr>
                 in case save_users U (users s1) (disk s1) of
                      (Some e, d) \<Rightarrow> (Some e, s1\<lparr>disk := d\<rparr>)
                    | (None, d) \<Rightarrow> refresh_tables U (s1\<lparr>disk := d\<rparr>))
              else (None, s)))"

text \<open>
  The profile that \<open>load_users\<close> builds from the row that \<open>save_users\<close> writes for \<open>u\<close>.
\<close>

definition reloaded :: "ucd \<Rightarrow> user \<Rightarrow> user" where
  "reloaded U u = \<lparr> uid = str_upper U (str_strip U (str_upper U (uid u))),
                   nama = Some (cell (nama u)), umur = Some (cell (umur u)) \<rparr>"

text \<open>
  An identifier as the program keeps it in its profile list: \<open>load_users\<close> and \<open>form_save\<close>
  are the only writers of identifiers, both end in \<open>upper()\<close> on text without white space
  at its ends, and such an identifier is read back from the file as it is.
\<close>

definition stored :: "ucd \<Rightarrow> pystr \<Rightarrow> bool" where
  "stored U x = (str_upper U (str_strip U (str_upper U x)) = x)"

text \<open>Identifiers that are pairwise distinct under canonicalization.\<close>

definition unique_uids :: "ucd \<Rightarrow> user list \<Rightarrow> bool" where
  "unique_uids U us = distinct (map (\<lambda>u. normalize_uid U (uid u)) us)"







section \<open>Sample data\<close>

text \<open>The scanned text and the profile of the known-identifier scenario, and a time stamp.\<close>

definition raw_scan :: pystr where
  "raw_scan = lit '' ab-12 cd '' @ [10]"

definition alice :: user where
  "alice = \<lparr> uid = lit ''AB12CD'', nama = Some (lit ''Alice''), umur = Some (lit ''30'') \<rparr>"

text \<open>
  A profile as \<open>load_users\<close> reads it from the two-field row \<open>J\<close> with a combining caron
  (the upper case of U+01F0), \<open>Jan\<close>: the age is \<open>None\<close>.
\<close>

definition jan :: user where
  "jan = \<lparr> uid = [0x4A, 0x30C], nama = Some (lit ''Jan''), umur = None \<rparr>"

definition noon :: pystr where
  "noon = lit ''2024-05-06 12:00:00''"

text \<open>The files as \<open>ensure_files\<close> creates them, and the same with a first profile saved.\<close>

definition fresh_disk :: fs where
  "fresh_disk = \<lparr> users_csv = \<lparr> content = Some [users_header], denied = False \<rparr>,
                  log_csv = \<lparr> content = Some [log_header], denied = False \<rparr>,
                  users_room = None \<rparr>"

definition alice_disk :: fs where
  "alice_disk = \<lparr> users_csv = \<lparr> content = Some [users_header, [lit ''AB12CD'', lit ''Alice'', lit ''30'']],
                                  denied = False \<rparr>,
                  log_csv = \<lparr> content = Some [log_header], denied = False \<rparr>,
                  users_room = None \<rparr>"

text \<open>The fresh files with \<open>users.csv\<close> write-protected.\<close>

definition locked_disk :: fs where
  "locked_disk = \<lparr> users_csv = \<lparr> content = Some [users_header], denied = True \<rparr>,
                   log_csv = \<lparr> content = Some [log_header], denied = False \<rparr>,
                   users_room = None \<rparr>"

text \<open>A log of three attendance records.\<close>

definition three_scans :: fs where
  "three_scans = \<lparr> users_csv = \<lparr> content = Some [users_header], denied = False \<rparr>,
       log_csv = \<lparr> content = Some [log_header,
                     [lit ''AB12CD'', lit ''Alice'', lit ''2024-05-06 08:00:00''],
                     [lit ''EF34'', lit ''Budi'', lit ''2024-05-06 08:05:00''],
                     [lit ''AB12CD'', lit ''Alice'', lit ''2024-05-06 17:00:00'']],
                   denied = False \<rparr>,
       users_room = None \<rparr>"

text \<open>The application after start-up on the files \<open>d\<close> with the profiles \<open>us\<close> loaded.\<close>

definition started :: "user list \<Rightarrow> fs \<Rightarrow> app" where
  "started us d = \<lparr> users = us, logs = [], serial_queue = [], uid_detected_var = lit ''-'',
       uid_var = [], nama_var = [], umur_var = [],
       users_tree = map (\<lambda>u. (uid u, nama u, umur u)) us, logs_tree = [],
       bells = 0, dialogs = [], disk = d \<rparr>"

text \<open>
  The form filled in to register a second profile, beside \<open>alice\<close>; the identifier typed
  is U+01F0 followed by \<open>-7\<close>.
\<close>

definition adding_jan :: app where
  "adding_jan = (started [alice] alice_disk)\<lparr>uid_var := [0x1F0, 45, 55], nama_var := lit '' Jan ''\<rparr>"

text \<open>The form filled in to register a first profile while \<open>users.csv\<close> is write-protected.\<close>

definition adding_alice_locked :: app where
  "adding_alice_locked = (started [] locked_disk)\<lparr>uid_var := lit ''ab12cd'', nama_var := lit ''Alice''\<rparr>"

text \<open>The form filled in to rename \<open>alice\<close> while \<open>users.csv\<close> is write-protected.\<close>

definition renaming_alice_locked :: app where
  "renaming_alice_locked =
     (started [alice] locked_disk)\<lparr>uid_var := lit ''ab-12-cd'', nama_var := lit ''Alicia''\<rparr>"

text \<open>The same while the device has room for one record only.\<close>

definition renaming_alice_full :: app where
  "renaming_alice_full =
     (started [alice] (alice_disk\<lparr>users_room := Some 1\<rparr>))\<lparr>uid_var := lit ''ab-12-cd'',
        nama_var := lit ''Alicia''\<rparr>"





section \<open>Facts about ASCII text\<close>

lemma cpython_ascii_tables: "ascii_tables cpython_ucd"
  by (simp add: ascii_tables_def cpython_ucd_def)

lemma ascii_upper_alnum: "ascii_isalnum c \<Longrightarrow> upper_alnum (ascii_upper c)"
  by (auto simp: ascii_isalnum_def upper_alnum_def ascii_upper_def)

lemma upper_alnum_fixed:
  "upper_alnum c \<Longrightarrow> c < 128 \<and> ascii_isalnum c \<and> ascii_upper c = c \<and> \<not> ascii_isspace c"
  by (auto simp: ascii_isalnum_def upper_alnum_def ascii_upper_def ascii_isspace_def)

lemma normalize_uid_ascii:
  assumes "ascii_tables U" and "isascii x"
  shows "normalize_uid U x = map ascii_upper (filter ascii_isalnum x)"
  using assms(2)
proof (induction x)
  case Nil
  then show ?case by (simp add: normalize_uid_def str_upper_def)
next
  case (Cons c x)
  then have c: "c < 128" and x: "isascii x" by (simp_all add: isascii_def)
  from assms(1) c have "isalnum U c = ascii_isalnum c" "upper U c = [ascii_upper c]"
    by (simp_all add: ascii_tables_def)
  with Cons.IH [OF x] show ?case
    by (simp add: normalize_uid_def str_upper_def)
qed

lemma normalize_uid_ascii_upper_alnum:
  assumes "ascii_tables U" and "isascii x"
  shows "list_all upper_alnum (normalize_uid U x)"
  by (simp add: normalize_uid_ascii [OF assms] list_all_iff ascii_upper_alnum)

lemma upper_alnum_isascii: "list_all upper_alnum s \<Longrightarrow> isascii s"
  by (induction s) (auto simp: isascii_def dest: upper_alnum_fixed)

lemma normalize_uid_upper_alnum_id:
  assumes "ascii_tables U" and "list_all upper_alnum s"
  shows "normalize_uid U s = s"
proof -
  have "map ascii_upper (filter ascii_isalnum s) = s"
    using assms(2) by (induction s) (auto dest: upper_alnum_fixed)
  then show ?thesis
    using normalize_uid_ascii [OF assms(1) upper_alnum_isascii [OF assms(2)]] by simp
qed

lemma ascii_tablesD:
  "ascii_tables U \<Longrightarrow> c < 128 \<Longrightarrow>
     isalnum U c = ascii_isalnum c \<and> isspace U c = ascii_isspace c \<and> upper U c = [ascii_upper c]"
  by (simp add: ascii_tables_def)

lemma ascii_upper_lt: "c < 128 \<Longrightarrow> ascii_upper c < 128"
  by (auto simp: ascii_upper_def)

lemma ascii_upper_idem: "ascii_upper (ascii_upper c) = ascii_upper c"
  by (auto simp: ascii_upper_def)

lemma ascii_isalnum_upper: "ascii_isalnum (ascii_upper c) = ascii_isalnum c"
  by (auto simp: ascii_upper_def ascii_isalnum_def)

lemma ascii_space_not_alnum: "ascii_isspace c \<Longrightarrow> \<not> ascii_isalnum c"
  by (auto simp: ascii_isspace_def ascii_isalnum_def)

lemma str_upper_ascii:
  assumes "ascii_tables U" and "isascii x"
  shows "str_upper U x = map ascii_upper x"
  using assms(2)
  by (induction x) (auto simp: str_upper_def isascii_def dest: ascii_tablesD [OF assms(1)])

lemma isascii_str_upper:
  assumes "ascii_tables U" and "isascii x"
  shows "isascii (str_upper U x)"
  using assms(2) by (simp add: str_upper_ascii [OF assms] isascii_def list_all_iff ascii_upper_lt)

lemma filter_dropWhile_disjoint:
  "(\<And>c. c \<in> set xs \<Longrightarrow> P c \<Longrightarrow> \<not> Q c) \<Longrightarrow> filter Q (dropWhile P xs) = filter Q xs"
  by (induction xs) auto

lemma filter_str_strip:
  assumes "\<And>c. c \<in> set x \<Longrightarrow> isspace U c \<Longrightarrow> \<not> isalnum U c"
  shows "filter (isalnum U) (str_strip U x) = filter (isalnum U) x"
proof -
  let ?y = "dropWhile (isspace U) x"
  have y: "filter (isalnum U) ?y = filter (isalnum U) x"
    using assms by (rule filter_dropWhile_disjoint)
  have "filter (isalnum U) (dropWhile (isspace U) (rev ?y)) = filter (isalnum U) (rev ?y)"
    by (rule filter_dropWhile_disjoint) (use assms in \<open>auto dest: set_dropWhileD\<close>)
  then have "filter (isalnum U) (rev (dropWhile (isspace U) (rev ?y))) = filter (isalnum U) ?y"
    by (simp add: rev_filter [symmetric])
  with y show ?thesis by (simp add: str_strip_def)
qed

lemma normalize_uid_str_strip:
  assumes "ascii_tables U" and "isascii x"
  shows "normalize_uid U (str_strip U x) = normalize_uid U x"
proof -
  have "filter (isalnum U) (str_strip U x) = filter (isalnum U) x"
  proof (rule filter_str_strip)
    fix c assume "c \<in> set x" and sp: "isspace U c"
    with assms(2) have "c < 128" by (simp add: isascii_def list_all_iff)
    from ascii_tablesD [OF assms(1) this] sp show "\<not> isalnum U c"
      by (simp add: ascii_space_not_alnum)
  qed
  then show ?thesis by (simp add: normalize_uid_def)
qed

lemma normalize_uid_str_upper:
  assumes "ascii_tables U" and "isascii x"
  shows "normalize_uid U (str_upper U x) = normalize_uid U x"
proof -
  have "map ascii_upper (filter ascii_isalnum (map ascii_upper x)) = map ascii_upper (filter ascii_isalnum x)"
    by (induction x) (simp_all add: ascii_isalnum_upper ascii_upper_idem)
  then show ?thesis
    using normalize_uid_ascii [OF assms(1) isascii_str_upper [OF assms]]
      normalize_uid_ascii [OF assms] str_upper_ascii [OF assms] by simp
qed

section \<open>Facts about the store\<close>

lemma reader_loop_queue:
  "fst (reader_loop U rs q) =
     q @ filter (\<lambda>u. u \<noteq> []) (map (\<lambda>t. normalize_uid U (str_strip U t)) (lines_read rs))"
proof (induction U rs q rule: reader_loop.induct)
  case (1 U q)
  show ?case by simp
next
  case (2 U ln rs q)
  show ?case
  proof (cases "str_strip U ln = []")
    case True
    with 2 show ?thesis by (simp add: normalize_uid_def str_upper_def)
  next
    case False
    with 2 show ?thesis by (simp add: Let_def)
  qed
next
  case (3 U rs q)
  show ?case by simp
qed

lemma DictReader_snoc:
  "r \<noteq> [] \<Longrightarrow> rows \<noteq> [] \<Longrightarrow> DictReader (rows @ [r]) = DictReader rows @ [dict_row (hd rows) r]"
  by (cases rows) (simp_all add: DictReader_def)

lemma log_header_items:
  "item (dict_row log_header [a, b, c]) (lit ''uid'') = Some (Some a)"
  "item (dict_row log_header [a, b, c]) (lit ''nama'') = Some (Some b)"
  "item (dict_row log_header [a, b, c]) (lit ''waktu'') = Some (Some c)"
  by (simp_all add: dict_row_def log_header_def lit_def)

lemma users_header_items:
  "item (dict_row users_header [a, b, c]) (lit ''uid'') = Some (Some a)"
  "item (dict_row users_header [a, b, c]) (lit ''nama'') = Some (Some b)"
  "item (dict_row users_header [a, b, c]) (lit ''umur'') = Some (Some c)"
  by (simp_all add: dict_row_def users_header_def lit_def)

lemma append_log_ok:
  "\<not> denied (log_csv d) \<Longrightarrow>
   append_log U now i n d =
     Inr (d\<lparr>log_csv := (log_csv d)\<lparr>content := Some
        (records_of (log_csv d) @
         (if records_of (log_csv d) = [] then [log_header] else []) @
         [[str_upper U i, cell n, now]])\<rparr>\<rparr>)"
  by (simp add: append_log_def Let_def)

lemma load_logs_ok:
  "\<not> denied (log_csv d) \<Longrightarrow> content (log_csv d) = Some rows \<Longrightarrow>
   load_logs limit d = (case limit of None \<Rightarrow> Inr (DictReader rows)
      | Some n \<Rightarrow> if n \<noteq> 0 then Inr (slice_from (- n) (DictReader rows)) else Inr (DictReader rows))"
  by (simp add: load_logs_def open_read_def Let_def)

lemma slice_from_last: "0 < n \<Longrightarrow> slice_from (- int n) xs = drop (length xs - n) xs"
  by (auto simp: slice_from_def Let_def max_def nat_diff_distrib')

lemmas eval_text = normalize_uid_def str_upper_def str_strip_def cpython_ucd_def ascii_isalnum_def
  ascii_isspace_def ascii_upper_def lit_def

section \<open>Facts about the application\<close>

lemma fill_logs_tree_shape: "\<exists>t. snd (fill_logs_tree rs s) = s\<lparr>logs_tree := t\<rparr>"
proof (induction rs arbitrary: s)
  case Nil
  have "s = s\<lparr>logs_tree := logs_tree s\<rparr>" by simp
  then show ?case by (auto intro: exI [of _ "logs_tree s"])
next
  case (Cons r rs)
  show ?case
  proof (cases "log_values r")
    case (Inl e)
    have "s = s\<lparr>logs_tree := logs_tree s\<rparr>" by simp
    with Inl show ?thesis by (auto intro: exI [of _ "logs_tree s"])
  next
    case (Inr v)
    from Cons [of "s\<lparr>logs_tree := logs_tree s @ [v]\<rparr>"] Inr show ?thesis by auto
  qed
qed

lemma refresh_tables_shape:
  "\<exists>ls ut lt. snd (refresh_tables U s)
      = s\<lparr>users := (case load_users U (disk s) of Inl e \<Rightarrow> users s | Inr us \<Rightarrow> us),
           logs := ls, users_tree := ut, logs_tree := lt\<rparr>"
proof (cases "load_users U (disk s)")
  case (Inl e)
  then show ?thesis
    by (simp add: refresh_tables_def)
      (rule exI [of _ "logs s"], rule exI [of _ "users_tree s"], rule exI [of _ "logs_tree s"], simp)
next
  case us: (Inr us)
  show ?thesis
  proof (cases "load_logs None (disk s)")
    case (Inl e)
    with us show ?thesis
      by (simp add: refresh_tables_def)
        (rule exI [of _ "logs s"], rule exI [of _ "users_tree s"], rule exI [of _ "logs_tree s"], simp)
  next
    case (Inr ls)
    let ?t = "s\<lparr>users := us, logs := ls, users_tree := map (\<lambda>u. (uid u, nama u, umur u)) us,
                logs_tree := []\<rparr>"
    from fill_logs_tree_shape [of "slice_from (- 200) ls" ?t]
    obtain lt where "snd (fill_logs_tree (slice_from (- 200) ls) ?t) = ?t\<lparr>logs_tree := lt\<rparr>" ..
    with us Inr show ?thesis
      by (simp add: refresh_tables_def)
        (rule exI [of _ ls], rule exI [of _ "map (\<lambda>u. (uid u, nama u, umur u)) us"],
          rule exI [of _ lt], simp)
  qed
qed

lemma refresh_tables_frame:
  "disk (snd (refresh_tables U s)) = disk s"
  "uid_var (snd (refresh_tables U s)) = uid_var s"
  "bells (snd (refresh_tables U s)) = bells s"
  "serial_queue (snd (refresh_tables U s)) = serial_queue s"
  "dialogs (snd (refresh_tables U s)) = dialogs s"
  "uid_detected_var (snd (refresh_tables U s)) = uid_detected_var s"
  using refresh_tables_shape [of U s] by auto

lemma refresh_tables_users:
  "users (snd (refresh_tables U s)) = (case load_users U (disk s) of Inl e \<Rightarrow> users s | Inr us \<Rightarrow> us)"
  using refresh_tables_shape [of U s] by auto

lemma find_user_by_uid_None:
  "(find_user_by_uid U us i = None) = (\<forall>u\<in>set us. normalize_uid U (uid u) \<noteq> normalize_uid U i)"
  by (auto simp: find_user_by_uid_def find_None_iff)

lemma find_user_by_uid_Some:
  "find_user_by_uid U us i = Some u \<Longrightarrow> u \<in> set us \<and> normalize_uid U (uid u) = normalize_uid U i"
  by (auto simp: find_user_by_uid_def find_Some_iff)

lemma on_uid_received_unknown:
  "find_user_by_uid U (users s) i = None \<Longrightarrow>
   on_uid_received U now i s = (None, s\<lparr>uid_detected_var := i, uid_var := i, bells := Suc (bells s)\<rparr>)"
  by (simp add: on_uid_received_def)

lemma on_uid_received_known:
  "find_user_by_uid U (users s) i = Some u \<Longrightarrow> append_log U now i (nama u) (disk s) = Inr d \<Longrightarrow>
   on_uid_received U now i s = refresh_tables U (s\<lparr>uid_detected_var := i, disk := d\<rparr>)"
  by (simp add: on_uid_received_def)

lemma DictReader_appended:
  "length (DictReader (rows @ (if rows = [] then [h] else []) @ [[a, b, c]])) = Suc (length (DictReader rows))"
  by (cases rows) (simp_all add: DictReader_def)

lemma find_user_by_uid_unique:
  assumes "unique_uids U us" and "u \<in> set us" and "normalize_uid U (uid u) = normalize_uid U i"
  shows "find_user_by_uid U us i = Some u"
proof (cases "find_user_by_uid U us i")
  case None
  with assms(2,3) show ?thesis by (simp add: find_user_by_uid_None)
next
  case (Some v)
  then have v: "v \<in> set us" "normalize_uid U (uid v) = normalize_uid U i"
    by (simp_all add: find_user_by_uid_Some)
  from assms(1) have "inj_on (\<lambda>u. normalize_uid U (uid u)) (set us)"
    by (simp add: unique_uids_def distinct_map)
  from inj_onD [OF this, of v u] v assms(2,3) have "v = u" by simp
  with Some show ?thesis by simp
qed

lemma poll_serial_single:
  "i \<noteq> [] \<Longrightarrow> poll_serial U now (s\<lparr>serial_queue := [i]\<rparr>) =
     (case on_uid_received U (now 0) i (s\<lparr>serial_queue := []\<rparr>) of
        (Some e, s2) \<Rightarrow> (Some e, s2)
      | (None, s2) \<Rightarrow> (None, s2\<lparr>serial_queue := []\<rparr>))"
  by (simp add: poll_serial_def split: prod.splits option.splits)

lemma poll_serial_single_frame:
  assumes "i \<noteq> []"
  shows "disk (snd (poll_serial U now (s\<lparr>serial_queue := [i]\<rparr>)))
           = disk (snd (on_uid_received U (now 0) i (s\<lparr>serial_queue := []\<rparr>)))"
    and "uid_var (snd (poll_serial U now (s\<lparr>serial_queue := [i]\<rparr>)))
           = uid_var (snd (on_uid_received U (now 0) i (s\<lparr>serial_queue := []\<rparr>)))"
    and "bells (snd (poll_serial U now (s\<lparr>serial_queue := [i]\<rparr>)))
           = bells (snd (on_uid_received U (now 0) i (s\<lparr>serial_queue := []\<rparr>)))"
  by (simp_all add: poll_serial_single [OF assms] split: prod.splits option.splits)

lemma on_uid_received_queue:
  "serial_queue (snd (on_uid_received U now i s)) = serial_queue s"
  by (simp add: on_uid_received_def Let_def refresh_tables_frame split: option.splits sum.splits)

lemma poll_serial_single_queue:
  "i \<noteq> [] \<Longrightarrow> serial_queue (snd (poll_serial U now (s\<lparr>serial_queue := [i]\<rparr>))) = []"
  using on_uid_received_queue [of U "now 0" i "s\<lparr>serial_queue := []\<rparr>"]
  by (auto simp: poll_serial_single split: prod.splits option.splits)

lemma raw_scan_ascii: "isascii raw_scan"
  by (simp add: raw_scan_def lit_def isascii_def)

lemma ab12cd_upper_alnum: "list_all upper_alnum (lit ''AB12CD'')"
  by (simp add: lit_def upper_alnum_def)

lemma normalize_raw_scan: "ascii_tables U \<Longrightarrow> normalize_uid U raw_scan = lit ''AB12CD''"
  by (simp add: normalize_uid_ascii [OF _ raw_scan_ascii])
    (simp add: raw_scan_def lit_def ascii_isalnum_def ascii_upper_def)

lemma normalize_uid_Nil: "normalize_uid U [] = []"
  by (simp add: normalize_uid_def str_upper_def)

lemma run_raw_scan:
  assumes "ascii_tables U"
  shows "fst (run U True [Line raw_scan] q) = q @ [lit ''AB12CD'']"
proof -
  have n: "normalize_uid U (str_strip U raw_scan) = lit ''AB12CD''"
    by (simp add: normalize_uid_str_strip [OF assms raw_scan_ascii] normalize_raw_scan [OF assms])
  have ne: "lit ''AB12CD'' \<noteq> []" by (simp add: lit_def)
  with n have "str_strip U raw_scan \<noteq> []" by (auto simp: normalize_uid_Nil)
  with n ne show ?thesis by (simp add: run_def)
qed

lemma str_upper_ab12cd: "ascii_tables U \<Longrightarrow> str_upper U (lit ''AB12CD'') = lit ''AB12CD''"
  using normalize_uid_upper_alnum_id [OF _ ab12cd_upper_alnum, of U]
    normalize_uid_str_upper [OF _ upper_alnum_isascii [OF ab12cd_upper_alnum], of U]
    str_upper_ascii [OF _ upper_alnum_isascii [OF ab12cd_upper_alnum], of U]
  by (simp add: lit_def ascii_upper_def)


lemma find_alice:
  "find_user_by_uid cpython_ucd [alice] (lit ''AB12CD'') = Some alice"
  "find_user_by_uid cpython_ucd [alice] (lit ''EF34'') = None"
  by (simp_all add: find_user_by_uid_def alice_def eval_text)

lemma unique_uids_update:
  "unique_uids U (map (\<lambda>u. if P u then u\<lparr>nama := a, umur := b\<rparr> else u) us) = unique_uids U us"
proof -
  have "map (\<lambda>u. normalize_uid U (uid u)) (map (\<lambda>u. if P u then u\<lparr>nama := a, umur := b\<rparr> else u) us)
      = map (\<lambda>u. normalize_uid U (uid u)) us"
    by (induction us) simp_all
  then show ?thesis unfolding unique_uids_def by (rule arg_cong)
qed

lemma unique_uids_append:
  assumes "unique_uids U us" and "find_user_by_uid U us k = None" and "normalize_uid U k' = normalize_uid U k"
  shows "unique_uids U (us @ [\<lparr>uid = k', nama = a, umur = b\<rparr>])"
  using assms by (auto simp: unique_uids_def find_user_by_uid_None)

lemma unique_uids_filter: "unique_uids U us \<Longrightarrow> unique_uids U (filter P us)"
  by (simp add: unique_uids_def distinct_map_filter)

section \<open>Facts about stored identifiers\<close>

lemma str_upper_append: "str_upper U (x @ y) = str_upper U x @ str_upper U y"
  by (simp add: str_upper_def)

lemma str_upper_idem:
  assumes "casing_tables U"
  shows "str_upper U (str_upper U x) = str_upper U x"
proof (induction x)
  case Nil
  show ?case by (simp add: str_upper_def)
next
  case (Cons c x)
  from assms have c: "str_upper U (upper U c) = upper U c" by (simp add: casing_tables_def)
  have "str_upper U (c # x) = upper U c @ str_upper U x" by (simp add: str_upper_def)
  with Cons c show ?case by (simp add: str_upper_append)
qed

text \<open>Text without white space at its ends.\<close>

lemma dropWhile_id: "xs = [] \<or> \<not> P (hd xs) \<Longrightarrow> dropWhile P xs = xs"
  by (cases xs) auto

lemma str_strip_id:
  assumes "x = [] \<or> (\<not> isspace U (hd x) \<and> \<not> isspace U (last x))"
  shows "str_strip U x = x"
proof -
  from assms have 1: "dropWhile (isspace U) x = x" by (auto intro: dropWhile_id)
  from assms have "rev x = [] \<or> \<not> isspace U (hd (rev x))" by (auto simp: hd_rev)
  then have 2: "dropWhile (isspace U) (rev x) = rev x" by (rule dropWhile_id)
  show ?thesis by (simp add: str_strip_def 1 2)
qed

lemma str_strip_ends:
  "str_strip U x = [] \<or> (\<not> isspace U (hd (str_strip U x)) \<and> \<not> isspace U (last (str_strip U x)))"
proof -
  let ?y = "dropWhile (isspace U) x"
  let ?z = "dropWhile (isspace U) (rev ?y)"
  show ?thesis
  proof (cases "?z = []")
    case True
    then show ?thesis by (simp add: str_strip_def)
  next
    case False
    then have hz: "\<not> isspace U (hd ?z)" by (rule hd_dropWhile)
    have y: "?y \<noteq> []"
    proof
      assume e: "?y = []"
      have "?z = []" unfolding e by simp
      with False show False ..
    qed
    then have hy: "\<not> isspace U (hd ?y)" by (rule hd_dropWhile)
    have "last ?z = last (rev ?y)"
      using False by (metis dropWhile_eq_Nil_conv takeWhile_dropWhile_id last_appendR)
    also have "\<dots> = hd ?y" using y by (simp add: last_rev)
    finally have lz: "last ?z = hd ?y" .
    from False have "hd (rev ?z) = last ?z" "last (rev ?z) = hd ?z"
      by (simp_all add: hd_rev last_rev)
    with hz hy lz False show ?thesis by (simp add: str_strip_def)
  qed
qed

lemma str_upper_ends:
  assumes "casing_tables U" and "x = [] \<or> (\<not> isspace U (hd x) \<and> \<not> isspace U (last x))"
  shows "str_upper U x = [] \<or> (\<not> isspace U (hd (str_upper U x)) \<and> \<not> isspace U (last (str_upper U x)))"
proof (cases x rule: rev_cases)
  case Nil
  then show ?thesis by (simp add: str_upper_def)
next
  case (snoc y l)
  with assms(2) have l: "\<not> isspace U l" and h: "\<not> isspace U (hd x)" by simp_all
  from assms(1) l have ul: "upper U l \<noteq> []" "\<not> isspace U (last (upper U l))"
    by (simp_all add: casing_tables_def)
  have ux: "str_upper U x = str_upper U y @ upper U l"
    by (simp add: snoc str_upper_append) (simp add: str_upper_def)
  with ul have last: "\<not> isspace U (last (str_upper U x))" by simp
  from snoc have "x \<noteq> []" by simp
  then obtain c z where x: "x = c # z" by (cases x) auto
  with h have c: "\<not> isspace U c" by simp
  from assms(1) c have uc: "upper U c \<noteq> []" "\<not> isspace U (hd (upper U c))"
    by (simp_all add: casing_tables_def)
  have "str_upper U x = upper U c @ str_upper U z" by (simp add: x str_upper_def)
  with uc have "\<not> isspace U (hd (str_upper U x))" by simp
  with last show ?thesis by simp
qed

lemma stored_str_upper:
  assumes "casing_tables U" and "x = [] \<or> (\<not> isspace U (hd x) \<and> \<not> isspace U (last x))"
  shows "stored U (str_upper U x)"
  by (simp add: stored_def str_upper_idem [OF assms(1)] str_strip_id [OF str_upper_ends [OF assms]])

lemma stored_loaded:
  assumes "casing_tables U"
  shows "stored U (str_upper U (str_strip U v))"
  by (rule stored_str_upper [OF assms str_strip_ends])

lemma stored_normalize_uid:
  assumes "casing_tables U"
  shows "stored U (normalize_uid U x)"
proof -
  let ?t = "filter (isalnum U) x"
  have "?t = [] \<or> (\<not> isspace U (hd ?t) \<and> \<not> isspace U (last ?t))"
  proof (cases "?t = []")
    case True
    then show ?thesis by simp
  next
    case False
    have a: "\<And>c. c \<in> set ?t \<Longrightarrow> isalnum U c" by simp
    from False have "isalnum U (hd ?t)" "isalnum U (last ?t)"
      by (rule a [OF hd_in_set], rule a [OF last_in_set])
    with assms show ?thesis by (simp add: casing_tables_def)
  qed
  from stored_str_upper [OF assms this] show ?thesis by (simp add: normalize_uid_def)
qed

lemma cpython_casing_tables: "casing_tables cpython_ucd"
  by (auto simp: casing_tables_def cpython_ucd_def str_upper_def ascii_upper_def ascii_isalnum_def
      ascii_isspace_def)

section \<open>Facts about saving profiles\<close>

lemma user_of_row_saved:
  "user_of_row U (dict_row users_header [str_upper U (uid u), cell (nama u), cell (umur u)])
     = Inr (reloaded U u)"
  by (simp add: user_of_row_def users_header_items reloaded_def)

lemma save_users_fails_iff:
  "(fst (save_users U us d) \<noteq> None)
     = (denied (users_csv d) \<or> (\<exists>k. users_room d = Some k \<and> k \<le> length us))"
  by (auto simp: save_users_def Let_def split: option.splits)

lemma save_users_ok:
  assumes "save_users U us d = (None, d')"
  shows "d' = d\<lparr>users_csv := (users_csv d)\<lparr>content :=
      Some (users_header # map (\<lambda>u. [str_upper U (uid u), cell (nama u), cell (umur u)]) us)\<rparr>\<rparr>"
    and "\<not> denied (users_csv d)"
  using assms by (auto simp: save_users_def Let_def split: option.splits if_splits)

lemma load_users_saved:
  assumes "save_users U us d = (None, d')"
  shows "load_users U d' = Inr (map (reloaded U) us)"
proof -
  have "collect (user_of_row U)
          (map (dict_row users_header) (map (\<lambda>u. [str_upper U (uid u), cell (nama u), cell (umur u)]) us))
        = Inr (map (reloaded U) us)"
    by (induction us) (simp_all add: user_of_row_saved)
  with save_users_ok(2) [OF assms] show ?thesis
    by (simp add: save_users_ok(1) [OF assms] load_users_def open_read_def DictReader_def filter_map
        o_def)
qed

lemma reloaded_stored:
  "stored U (uid u) \<Longrightarrow> reloaded U u = u\<lparr>nama := Some (cell (nama u)), umur := Some (cell (umur u))\<rparr>"
  by (simp add: reloaded_def stored_def)

lemma map_reloaded_stored:
  assumes "\<forall>u\<in>set us. stored U (uid u)"
  shows "map (reloaded U) us = map (\<lambda>u. u\<lparr>nama := Some (cell (nama u)), umur := Some (cell (umur u))\<rparr>) us"
  using assms by (simp add: reloaded_stored)

lemma unique_uids_reloaded:
  assumes "\<forall>u\<in>set us. stored U (uid u)"
  shows "unique_uids U (map (reloaded U) us) = unique_uids U us"
proof -
  have "map (\<lambda>u. normalize_uid U (uid u)) (map (reloaded U) us) = map (\<lambda>u. normalize_uid U (uid u)) us"
    using assms by (simp add: reloaded_stored)
  then show ?thesis unfolding unique_uids_def by (rule arg_cong)
qed

lemma stored_reloaded:
  assumes "\<forall>u\<in>set us. stored U (uid u)"
  shows "\<forall>u\<in>set (map (reloaded U) us). stored U (uid u)"
  using assms by (simp add: reloaded_stored)

lemma stored_user_of_row:
  assumes "casing_tables U" and "user_of_row U r = Inr u"
  shows "stored U (uid u)"
  using assms(2) stored_loaded [OF assms(1)]
  by (auto simp: user_of_row_def split: option.splits)

lemma stored_collect:
  assumes "casing_tables U"
  shows "collect (user_of_row U) rs = Inr us \<Longrightarrow> \<forall>u\<in>set us. stored U (uid u)"
proof (induction rs arbitrary: us)
  case Nil
  then show ?case by simp
next
  case (Cons r rs)
  then show ?case
    by (auto split: sum.splits dest: stored_user_of_row [OF assms])
qed

lemma stored_load_users:
  assumes "casing_tables U" and "load_users U d = Inr us"
  shows "\<forall>u\<in>set us. stored U (uid u)"
proof -
  from assms(2) obtain rs where "collect (user_of_row U) rs = Inr us"
    by (auto simp: load_users_def split: sum.splits)
  then show ?thesis by (rule stored_collect [OF assms(1)])
qed

lemma refresh_users_loaded:
  "load_users U (disk t) = Inr us \<Longrightarrow> users (snd (refresh_tables U t)) = us"
  by (simp add: refresh_tables_users)

lemma form_save_invalid:
  "normalize_uid U (uid_var s) = [] \<or> str_strip U (nama_var s) = [] \<Longrightarrow>
   form_save U s = (None, s\<lparr>dialogs := dialogs s @ [RequiredFields]\<rparr>)"
  by (auto simp: form_save_def Let_def)

lemma form_save_failed:
  assumes "normalize_uid U (uid_var s) \<noteq> []" and "str_strip U (nama_var s) \<noteq> []"
    and "M = (case find_user_by_uid U (users s) (normalize_uid U (uid_var s)) of
                Some existing \<Rightarrow>
                  map (\<lambda>u. if normalize_uid U (uid u) = normalize_uid U (uid_var s)
                           then u\<lparr>nama := Some (str_strip U (nama_var s)),
                                  umur := Some (str_strip U (umur_var s))\<rparr>
                           else u) (users s)
              | None \<Rightarrow>
                  users s @ [\<lparr>uid = normalize_uid U (uid_var s),
                              nama = Some (str_strip U (nama_var s)),
                              umur = Some (str_strip U (umur_var s))\<rparr>])"
    and "save_users U M (disk s) = (Some e, d)"
  shows "form_save U s = (Some e, s\<lparr>users := M, disk := d\<rparr>)"
  using assms by (simp add: form_save_def Let_def split: option.splits)

lemma form_save_saved:
  assumes "normalize_uid U (uid_var s) \<noteq> []" and "str_strip U (nama_var s) \<noteq> []"
    and "M = (case find_user_by_uid U (users s) (normalize_uid U (uid_var s)) of
                Some existing \<Rightarrow>
                  map (\<lambda>u. if normalize_uid U (uid u) = normalize_uid U (uid_var s)
                           then u\<lparr>nama := Some (str_strip U (nama_var s)),
                                  umur := Some (str_strip U (umur_var s))\<rparr>
                           else u) (users s)
              | None \<Rightarrow>
                  users s @ [\<lparr>uid = normalize_uid U (uid_var s),
                              nama = Some (str_strip U (nama_var s)),
                              umur = Some (str_strip U (umur_var s))\<rparr>])"
    and "save_users U M (disk s) = (None, d)"
  shows "users (snd (form_save U s)) = map (reloaded U) M"
    and "disk (snd (form_save U s)) = d"
  using assms load_users_saved [OF assms(4)]
  by (simp_all add: form_save_def Let_def refresh_users_loaded refresh_tables_frame split: option.splits)

lemma delete_user_failed:
  assumes "F = filter (\<lambda>u. normalize_uid U (uid u) \<noteq> normalize_uid U v) (users s)"
    and "save_users U F (disk s) = (Some e, d)"
  shows "delete_user U (Some v) True s = (Some e, s\<lparr>users := F, disk := d\<rparr>)"
  using assms by (simp add: delete_user_def Let_def)

lemma delete_user_saved:
  assumes "F = filter (\<lambda>u. normalize_uid U (uid u) \<noteq> normalize_uid U v) (users s)"
    and "save_users U F (disk s) = (None, d)"
  shows "users (snd (delete_user U (Some v) True s)) = map (reloaded U) F"
  using assms load_users_saved [OF assms(2)]
  by (simp add: delete_user_def Let_def refresh_users_loaded)

text \<open>The list that an operation leaves: unchanged, changed in memory, or changed and reloaded.\<close>

lemma form_save_users:
  "users (snd (form_save U s)) = users s
   \<or> (\<exists>M. (M = map (\<lambda>u. if normalize_uid U (uid u) = normalize_uid U (uid_var s)
                          then u\<lparr>nama := Some (str_strip U (nama_var s)),
                                 umur := Some (str_strip U (umur_var s))\<rparr>
                          else u) (users s)
           \<or> (find_user_by_uid U (users s) (normalize_uid U (uid_var s)) = None
               \<and> M = users s @ [\<lparr>uid = normalize_uid U (uid_var s),
                                  nama = Some (str_strip U (nama_var s)),
                                  umur = Some (str_strip U (umur_var s))\<rparr>]))
          \<and> (users (snd (form_save U s)) = M \<or> users (snd (form_save U s)) = map (reloaded U) M))"
proof (cases "normalize_uid U (uid_var s) = [] \<or> str_strip U (nama_var s) = []")
  case True
  then show ?thesis by (simp add: form_save_invalid)
next
  case False
  then have v: "normalize_uid U (uid_var s) \<noteq> []" "str_strip U (nama_var s) \<noteq> []" by simp_all
  define M where "M = (case find_user_by_uid U (users s) (normalize_uid U (uid_var s)) of
                Some existing \<Rightarrow>
                  map (\<lambda>u. if normalize_uid U (uid u) = normalize_uid U (uid_var s)
                           then u\<lparr>nama := Some (str_strip U (nama_var s)),
                                  umur := Some (str_strip U (umur_var s))\<rparr>
                           else u) (users s)
              | None \<Rightarrow>
                  users s @ [\<lparr>uid = normalize_uid U (uid_var s),
                              nama = Some (str_strip U (nama_var s)),
                              umur = Some (str_strip U (umur_var s))\<rparr>])"
  have r: "users (snd (form_save U s)) = M \<or> users (snd (form_save U s)) = map (reloaded U) M"
  proof (cases "save_users U M (disk s)")
    case (Pair e d)
    show ?thesis
    proof (cases e)
      case None
      with Pair form_save_saved(1) [OF v M_def] show ?thesis by simp
    next
      case (Some x)
      with Pair form_save_failed [OF v M_def] show ?thesis by simp
    qed
  qed
  show ?thesis
  proof (cases "find_user_by_uid U (users s) (normalize_uid U (uid_var s))")
    case None
    with r M_def show ?thesis by auto
  next
    case (Some existing)
    with r M_def show ?thesis by auto
  qed
qed

lemma delete_user_users:
  "users (snd (delete_user U sel confirm s)) = users s
   \<or> (\<exists>v. users (snd (delete_user U sel confirm s))
             = filter (\<lambda>u. normalize_uid U (uid u) \<noteq> normalize_uid U v) (users s)
          \<or> users (snd (delete_user U sel confirm s))
             = map (reloaded U) (filter (\<lambda>u. normalize_uid U (uid u) \<noteq> normalize_uid U v) (users s)))"
proof (cases sel)
  case None
  then show ?thesis by (simp add: delete_user_def)
next
  case (Some v)
  show ?thesis
  proof (cases confirm)
    case False
    with Some show ?thesis by (simp add: delete_user_def Let_def)
  next
    case True
    define F where "F = filter (\<lambda>u. normalize_uid U (uid u) \<noteq> normalize_uid U v) (users s)"
    show ?thesis
    proof (cases "save_users U F (disk s)")
      case (Pair e d)
      show ?thesis
      proof (cases e)
        case None
        with Pair delete_user_saved [OF F_def] True Some F_def show ?thesis by auto
      next
        case (Some x)
        with Pair delete_user_failed [OF F_def] True \<open>sel = Some v\<close> F_def show ?thesis by auto
      qed
    qed
  qed
qed

lemma stored_invariant:
  assumes "unique_uids U M" and "\<forall>u\<in>set M. stored U (uid u)"
    and "us = M \<or> us = map (reloaded U) M"
  shows "unique_uids U us \<and> (\<forall>u\<in>set us. stored U (uid u))"
  using assms(3)
proof
  assume "us = M"
  with assms(1,2) show ?thesis by simp
next
  assume "us = map (reloaded U) M"
  with assms(1) unique_uids_reloaded [OF assms(2)] stored_reloaded [OF assms(2)]
  show ?thesis by simp
qed

lemma form_save_invariant:
  assumes "casing_tables U" and "\<forall>u\<in>set (users s). stored U (uid u)" and "unique_uids U (users s)"
  shows "unique_uids U (users (snd (form_save U s)))
     \<and> (\<forall>u\<in>set (users (snd (form_save U s))). stored U (uid u))"
proof -
  let ?k = "normalize_uid U (uid_var s)"
  let ?upd = "map (\<lambda>u. if normalize_uid U (uid u) = ?k
                        then u\<lparr>nama := Some (str_strip U (nama_var s)),
                               umur := Some (str_strip U (umur_var s))\<rparr>
                        else u) (users s)"
  let ?add = "users s @ [\<lparr>uid = ?k, nama = Some (str_strip U (nama_var s)),
                          umur = Some (str_strip U (umur_var s))\<rparr>]"
  have k: "stored U ?k" by (rule stored_normalize_uid [OF assms(1)])
  have upd: "unique_uids U ?upd \<and> (\<forall>u\<in>set ?upd. stored U (uid u))"
    using assms(2,3) by (auto simp: unique_uids_update)
  have add: "unique_uids U ?add \<and> (\<forall>u\<in>set ?add. stored U (uid u))"
    if "find_user_by_uid U (users s) ?k = None"
    using unique_uids_append [OF assms(3) that refl] assms(2) k by auto
  from form_save_users [of U s] show ?thesis
  proof (elim disjE exE conjE)
    assume "users (snd (form_save U s)) = users s"
    with assms(2,3) show ?thesis by simp
  next
    fix M assume M: "M = ?upd" and u: "users (snd (form_save U s)) = M"
    from u have "users (snd (form_save U s)) = ?upd" unfolding M .
    from stored_invariant [OF conjunct1 [OF upd] conjunct2 [OF upd] disjI1 [OF this]]
    show ?thesis .
  next
    fix M assume M: "M = ?upd" and u: "users (snd (form_save U s)) = map (reloaded U) M"
    from u have "users (snd (form_save U s)) = map (reloaded U) ?upd" unfolding M .
    from stored_invariant [OF conjunct1 [OF upd] conjunct2 [OF upd] disjI2 [OF this]]
    show ?thesis .
  next
    fix M assume n: "find_user_by_uid U (users s) ?k = None" and M: "M = ?add"
      and u: "users (snd (form_save U s)) = M"
    from u have "users (snd (form_save U s)) = ?add" unfolding M .
    from stored_invariant [OF conjunct1 [OF add [OF n]] conjunct2 [OF add [OF n]] disjI1 [OF this]]
    show ?thesis .
  next
    fix M assume n: "find_user_by_uid U (users s) ?k = None" and M: "M = ?add"
      and u: "users (snd (form_save U s)) = map (reloaded U) M"
    from u have "users (snd (form_save U s)) = map (reloaded U) ?add" unfolding M .
    from stored_invariant [OF conjunct1 [OF add [OF n]] conjunct2 [OF add [OF n]] disjI2 [OF this]]
    show ?thesis .
  qed
qed

lemma delete_user_invariant:
  assumes "\<forall>u\<in>set (users s). stored U (uid u)" and "unique_uids U (users s)"
  shows "unique_uids U (users (snd (delete_user U sel confirm s)))
     \<and> (\<forall>u\<in>set (users (snd (delete_user U sel confirm s))). stored U (uid u))"
proof -
  have F: "unique_uids U (filter P (users s))" "\<forall>u\<in>set (filter P (users s)). stored U (uid u)" for P
    using assms by (simp_all add: unique_uids_filter)
  from delete_user_users [of U sel confirm s] show ?thesis
  proof (elim disjE exE)
    assume "users (snd (delete_user U sel confirm s)) = users s"
    with assms show ?thesis by simp
  next
    fix v assume "users (snd (delete_user U sel confirm s))
      = filter (\<lambda>u. normalize_uid U (uid u) \<noteq> normalize_uid U v) (users s)"
    from stored_invariant [OF F disjI1 [OF this]] show ?thesis .
  next
    fix v assume "users (snd (delete_user U sel confirm s))
      = map (reloaded U) (filter (\<lambda>u. normalize_uid U (uid u) \<noteq> normalize_uid U v) (users s))"
    from stored_invariant [OF F disjI2 [OF this]] show ?thesis .
  qed
qed

section \<open>Facts about the poll\<close>

















lemma stored_samples:
  "stored cpython_ucd (uid alice)" "stored cpython_ucd (uid jan)"
  by (simp_all add: stored_def alice_def jan_def eval_text)

section \<open>Claims about the normalizer\<close>

text \<open>
  C1, as amended. For every ASCII input string \<open>x\<close> the normalizer is idempotent:
  \<open>normalize_uid (normalize_uid x) = normalize_uid x\<close>. (The claim as written, for every
  string, fails on U+01F0, as shown further below.)
\<close>

theorem normalize_uid_idempotent_ascii:
  assumes "ascii_tables U" and "isascii x"
  shows "normalize_uid U (normalize_uid U x) = normalize_uid U x"
  by (rule normalize_uid_upper_alnum_id [OF assms(1) normalize_uid_ascii_upper_alnum [OF assms]])

theorem normalize_uid_idempotent_ascii_witness:
  "ascii_tables cpython_ucd \<and> isascii [32, 97, 98, 45, 49, 50, 32, 99, 100, 32, 10]
   \<and> normalize_uid cpython_ucd [32, 97, 98, 45, 49, 50, 32, 99, 100, 32, 10] = [65, 66, 49, 50, 67, 68]
   \<and> normalize_uid cpython_ucd (normalize_uid cpython_ucd [32, 97, 98, 45, 49, 50, 32, 99, 100, 32, 10])
       = normalize_uid cpython_ucd [32, 97, 98, 45, 49, 50, 32, 99, 100, 32, 10]"
proof -
  have a: "ascii_tables cpython_ucd" by (rule cpython_ascii_tables)
  have b: "isascii [32, 97, 98, 45, 49, 50, 32, 99, 100, 32, 10]" by (simp add: isascii_def)
  have c: "normalize_uid cpython_ucd [32, 97, 98, 45, 49, 50, 32, 99, 100, 32, 10] = [65, 66, 49, 50, 67, 68]"
    by (simp add: normalize_uid_def str_upper_def cpython_ucd_def ascii_isalnum_def ascii_upper_def)
  from a b c normalize_uid_idempotent_ascii [OF a b] show ?thesis by blast
qed

text \<open>
  The claim C1 as written fails: \<open>normalize_uid\<close> maps the one-character string U+01F0 to
  J followed by U+030C, and maps that string to J alone, since the combining caron is
  not alphanumeric.
\<close>

theorem normalize_uid_not_idempotent:
  "normalize_uid cpython_ucd (normalize_uid cpython_ucd [0x1F0]) \<noteq> normalize_uid cpython_ucd [0x1F0]"
  by (simp add: normalize_uid_def str_upper_def cpython_ucd_def ascii_isalnum_def ascii_upper_def)

text \<open>
  C2, as amended. For every ASCII input string \<open>x\<close>, every character of
  \<open>normalize_uid x\<close> is an upper-case letter or a digit of ASCII. (The claim as written,
  for every string, fails on U+01F0, as shown further below.)
\<close>

theorem normalize_uid_upper_alnum_ascii:
  assumes "ascii_tables U" and "isascii x"
  shows "list_all upper_alnum (normalize_uid U x)"
  by (rule normalize_uid_ascii_upper_alnum [OF assms])

theorem normalize_uid_upper_alnum_ascii_witness:
  "ascii_tables cpython_ucd \<and> isascii [97, 98, 45, 49, 50, 32, 99, 100]
   \<and> list_all upper_alnum (normalize_uid cpython_ucd [97, 98, 45, 49, 50, 32, 99, 100])"
proof -
  have a: "ascii_tables cpython_ucd" by (rule cpython_ascii_tables)
  have b: "isascii [97, 98, 45, 49, 50, 32, 99, 100]" by (simp add: isascii_def)
  from a b normalize_uid_upper_alnum_ascii [OF a b] show ?thesis by blast
qed

text \<open>
  The claim C2 as written fails: the output for U+01F0 holds the combining caron U+030C,
  which is neither an ASCII upper-case letter or digit nor alphanumeric at all; and the
  output for U+00E9 is U+00C9, upper-cased by the Unicode rules, not the ASCII ones.
\<close>

theorem normalize_uid_not_upper_alnum:
  "\<not> list_all upper_alnum (normalize_uid cpython_ucd [0x1F0])
   \<and> \<not> list_all (isalnum cpython_ucd) (normalize_uid cpython_ucd [0x1F0])
   \<and> normalize_uid cpython_ucd [0xE9] = [0xC9]"
  by (simp add: normalize_uid_def str_upper_def cpython_ucd_def ascii_isalnum_def ascii_upper_def
      upper_alnum_def)

section \<open>Claims about the serial reader\<close>

text \<open>
  C9. The serial reader never publishes an empty identifier. The identifiers it adds to
  the queue are, in the order of reading, the values \<open>normalize_uid line\<close> of the lines read
  before the first exception, \<open>line\<close> being the stripped text, and only those that are not
  empty (an empty stripped line has an empty normalized form); a reader whose port does
  not open publishes nothing.
\<close>

theorem reader_publishes:
  "fst (run U True rs q) =
     q @ filter (\<lambda>u. u \<noteq> []) (map (\<lambda>t. normalize_uid U (str_strip U t)) (lines_read rs))
   \<and> [] \<notin> set (filter (\<lambda>u. u \<noteq> []) (map (\<lambda>t. normalize_uid U (str_strip U t)) (lines_read rs)))
   \<and> fst (run U False rs q) = q"
  by (simp add: run_def reader_loop_queue)

theorem reader_publishes_witness:
  "fst (run cpython_ucd True [Line raw_scan, Line [], Line (lit ''--''), ReadError, Line (lit ''zz'')] [])
     = [lit ''AB12CD'']"
proof -
  have "filter (\<lambda>u. u \<noteq> []) (map (\<lambda>t. normalize_uid cpython_ucd (str_strip cpython_ucd t))
          (lines_read [Line raw_scan, Line [], Line (lit ''--''), ReadError, Line (lit ''zz'')]))
        = [lit ''AB12CD'']"
    by (simp add: raw_scan_def eval_text)
  with reader_publishes [of cpython_ucd "[Line raw_scan, Line [], Line (lit ''--''), ReadError, Line (lit ''zz'')]" "[]"]
  show ?thesis by simp
qed

section \<open>Claims about the log file\<close>

text \<open>
  C10. Appending an attendance record to a log file that is empty or absent writes the
  header row and then the record, so that the file reads back as that one record under
  the header's field names; appending to a file that is not empty adds the record only.
\<close>

theorem append_log_header_iff_empty:
  assumes "\<not> denied (log_csv d)"
  shows "\<exists>d'. append_log U now i n d = Inr d' \<and> users_csv d' = users_csv d \<and>
     ((content (log_csv d) = None \<or> content (log_csv d) = Some []) \<longrightarrow>
        content (log_csv d') = Some [log_header, [str_upper U i, cell n, now]] \<and>
        (\<exists>r. load_logs None d' = Inr [r] \<and> item r (lit ''uid'') = Some (Some (str_upper U i))
            \<and> item r (lit ''nama'') = Some (Some (cell n)) \<and> item r (lit ''waktu'') = Some (Some now))) \<and>
     (\<forall>rows. content (log_csv d) = Some rows \<and> rows \<noteq> [] \<longrightarrow>
        content (log_csv d') = Some (rows @ [[str_upper U i, cell n, now]]))"
  using assms
  by (auto simp: append_log_ok records_of_def load_logs_def open_read_def DictReader_def
      log_header_items)

theorem append_log_header_iff_empty_witness:
  "\<not> denied (log_csv (fresh_disk\<lparr>log_csv := \<lparr>content = Some [], denied = False\<rparr>\<rparr>))
   \<and> (\<exists>d'. append_log cpython_ucd noon (lit ''ab12cd'') (Some (lit ''Alice''))
              (fresh_disk\<lparr>log_csv := \<lparr>content = Some [], denied = False\<rparr>\<rparr>) = Inr d'
         \<and> content (log_csv d') = Some [log_header, [lit ''AB12CD'', lit ''Alice'', noon]])"
proof -
  let ?d = "fresh_disk\<lparr>log_csv := \<lparr>content = Some [], denied = False\<rparr>\<rparr>"
  have a: "\<not> denied (log_csv ?d)" by simp
  have b: "content (log_csv ?d) = Some []" by simp
  have c: "str_upper cpython_ucd (lit ''ab12cd'') = lit ''AB12CD''" by (simp add: eval_text)
  from append_log_header_iff_empty [OF a, of cpython_ucd noon "lit ''ab12cd''" "Some (lit ''Alice'')"] b c
  obtain d' where "append_log cpython_ucd noon (lit ''ab12cd'') (Some (lit ''Alice'')) ?d = Inr d'"
    and "content (log_csv d') = Some [log_header, [lit ''AB12CD'', lit ''Alice'', noon]]"
    by (auto simp: cell_def)
  with a show ?thesis by blast
qed

text \<open>
  C8, as amended. \<open>load_logs\<close> without a limit returns all records in file order, which is
  the order of insertion (a record appended to the file comes last in the result); with
  a limit \<open>n > 0\<close> it returns the last \<open>min n length\<close> records in that order; with the limit
  0 it returns all records, as with no limit. (The claim as written includes \<open>n = 0\<close>
  among the limits that truncate; the sample log further below shows the contrary.)
\<close>

theorem load_logs_limit:
  assumes "\<not> denied (log_csv d)" and "content (log_csv d) = Some rows"
  shows "load_logs None d = Inr (DictReader rows)
     \<and> (\<forall>n. 0 < n \<longrightarrow> load_logs (Some (int n)) d
            = Inr (drop (length (DictReader rows) - n) (DictReader rows)))
     \<and> load_logs (Some 0) d = Inr (DictReader rows)
     \<and> (\<forall>d'. append_log U now i nm d = Inr d' \<longrightarrow>
            load_logs None d' = Inr (DictReader rows @ [dict_row (hd (rows @ [log_header])) [str_upper U i, cell nm, now]]))"
proof -
  have 4: "load_logs None d' = Inr (DictReader rows @ [dict_row (hd (rows @ [log_header])) [str_upper U i, cell nm, now]])"
    if "append_log U now i nm d = Inr d'" for d'
  proof -
    from that assms have d': "d' = d\<lparr>log_csv := (log_csv d)\<lparr>content := Some
        (rows @ (if rows = [] then [log_header] else []) @ [[str_upper U i, cell nm, now]])\<rparr>\<rparr>"
      by (simp add: append_log_ok records_of_def)
    show ?thesis
    proof (cases "rows = []")
      case True
      with d' assms show ?thesis by (simp add: load_logs_def open_read_def DictReader_def)
    next
      case False
      with d' assms show ?thesis by (simp add: load_logs_def open_read_def DictReader_snoc)
    qed
  qed
  from assms show ?thesis
    by (simp add: load_logs_ok slice_from_last 4)
qed

theorem load_logs_limit_witness:
  "\<not> denied (log_csv three_scans)
   \<and> load_logs (Some 2) three_scans
       = Inr [dict_row log_header [lit ''EF34'', lit ''Budi'', lit ''2024-05-06 08:05:00''],
              dict_row log_header [lit ''AB12CD'', lit ''Alice'', lit ''2024-05-06 17:00:00'']]"
proof -
  let ?rows = "[log_header,
                 [lit ''AB12CD'', lit ''Alice'', lit ''2024-05-06 08:00:00''],
                 [lit ''EF34'', lit ''Budi'', lit ''2024-05-06 08:05:00''],
                 [lit ''AB12CD'', lit ''Alice'', lit ''2024-05-06 17:00:00'']]"
  have a: "\<not> denied (log_csv three_scans)" by (simp add: three_scans_def)
  have b: "content (log_csv three_scans) = Some ?rows" by (simp add: three_scans_def)
  from load_logs_limit [OF a b]
  have "\<forall>n. 0 < n \<longrightarrow> load_logs (Some (int n)) three_scans
            = Inr (drop (length (DictReader ?rows) - n) (DictReader ?rows))"
    by blast
  from this [rule_format, of 2]
  have "load_logs (Some (int 2)) three_scans
            = Inr (drop (length (DictReader ?rows) - 2) (DictReader ?rows))"
    by simp
  with a show ?thesis by (simp add: DictReader_def)
qed

text \<open>With the limit 0 the three records of the sample log are all returned, not none.\<close>

theorem load_logs_zero_returns_all:
  "load_logs (Some 0) three_scans
     = Inr [dict_row log_header [lit ''AB12CD'', lit ''Alice'', lit ''2024-05-06 08:00:00''],
            dict_row log_header [lit ''EF34'', lit ''Budi'', lit ''2024-05-06 08:05:00''],
            dict_row log_header [lit ''AB12CD'', lit ''Alice'', lit ''2024-05-06 17:00:00'']]
   \<and> load_logs (Some 0) three_scans \<noteq> Inr []"
  by (simp add: load_logs_def open_read_def DictReader_def three_scans_def)

section \<open>Claims about the coordinator\<close>

text \<open>
  C3. Given profiles that are unique under canonicalization and contain the identifier
  \<open>AB12CD\<close> with the name \<open>Alice\<close>, the scanned text \<open>" ab-12 cd \n"\<close> normalizes to \<open>AB12CD\<close>,
  the reader queues \<open>AB12CD\<close>, the poll finds that profile and adds exactly one attendance
  record with the identifier \<open>AB12CD\<close> and the name \<open>Alice\<close> at the end of the log; nothing
  is staged.
\<close>

theorem known_scan_logged:
  assumes "ascii_tables U" and "unique_uids U (users s)"
    and "u \<in> set (users s)" and "uid u = lit ''AB12CD''" and "nama u = Some (lit ''Alice'')"
    and "\<not> denied (log_csv (disk s))"
    and "s' = snd (poll_serial U now (s\<lparr>serial_queue := fst (run U True [Line raw_scan] [])\<rparr>))"
  shows "normalize_uid U raw_scan = lit ''AB12CD''
     \<and> fst (run U True [Line raw_scan] []) = [lit ''AB12CD'']
     \<and> find_user_by_uid U (users s) (lit ''AB12CD'') = Some u
     \<and> content (log_csv (disk s')) =
         Some (records_of (log_csv (disk s))
               @ (if records_of (log_csv (disk s)) = [] then [log_header] else [])
               @ [[lit ''AB12CD'', lit ''Alice'', now 0]])
     \<and> length (DictReader (records_of (log_csv (disk s'))))
         = Suc (length (DictReader (records_of (log_csv (disk s)))))
     \<and> uid_var s' = uid_var s \<and> bells s' = bells s \<and> serial_queue s' = []"
proof -
  let ?i = "lit ''AB12CD''"
  let ?s0 = "s\<lparr>serial_queue := []\<rparr>"
  have ne: "?i \<noteq> []" by (simp add: lit_def)
  have q: "fst (run U True [Line raw_scan] []) = [?i]"
    using run_raw_scan [OF assms(1), of "[]"] by simp
  have "normalize_uid U (uid u) = normalize_uid U ?i" by (simp add: assms(4))
  from find_user_by_uid_unique [OF assms(2,3) this]
  have f: "find_user_by_uid U (users ?s0) ?i = Some u" by simp
  from assms(6) have a: "append_log U (now 0) ?i (nama u) (disk ?s0) =
      Inr ((disk s)\<lparr>log_csv := (log_csv (disk s))\<lparr>content := Some
        (records_of (log_csv (disk s)) @
         (if records_of (log_csv (disk s)) = [] then [log_header] else []) @
         [[str_upper U ?i, cell (nama u), now 0]])\<rparr>\<rparr>)"
    by (simp add: append_log_ok)
  have s': "disk s' = disk (snd (on_uid_received U (now 0) ?i ?s0))"
    "uid_var s' = uid_var (snd (on_uid_received U (now 0) ?i ?s0))"
    "bells s' = bells (snd (on_uid_received U (now 0) ?i ?s0))"
    "serial_queue s' = []"
    by (simp_all add: assms(7) q poll_serial_single_frame [OF ne] poll_serial_single_queue [OF ne])
  from f have f': "find_user_by_uid U (users s) ?i = Some u" by simp
  show ?thesis
    by (simp add: normalize_raw_scan [OF assms(1)] q f' s' on_uid_received_known [OF f a]
        refresh_tables_frame records_of_def [of "_\<lparr>content := _\<rparr>"] DictReader_appended
        str_upper_ab12cd [OF assms(1)] assms(5) cell_def)
qed

theorem known_scan_logged_witness:
  "ascii_tables cpython_ucd \<and> unique_uids cpython_ucd (users (started [alice] alice_disk))
   \<and> alice \<in> set (users (started [alice] alice_disk))
   \<and> uid alice = lit ''AB12CD'' \<and> nama alice = Some (lit ''Alice'')
   \<and> \<not> denied (log_csv (disk (started [alice] alice_disk)))
   \<and> content (log_csv (disk (snd (poll_serial cpython_ucd (\<lambda>k. noon)
        ((started [alice] alice_disk)\<lparr>serial_queue := fst (run cpython_ucd True [Line raw_scan] [])\<rparr>)))))
      = Some [log_header, [lit ''AB12CD'', lit ''Alice'', noon]]"
proof -
  let ?s = "started [alice] alice_disk"
  have a: "ascii_tables cpython_ucd" by (rule cpython_ascii_tables)
  have b: "unique_uids cpython_ucd (users ?s)" by (simp add: unique_uids_def started_def)
  have c: "alice \<in> set (users ?s)" by (simp add: started_def)
  have d: "uid alice = lit ''AB12CD''" "nama alice = Some (lit ''Alice'')" by (simp_all add: alice_def)
  have e: "\<not> denied (log_csv (disk ?s))" by (simp add: started_def alice_disk_def)
  have r: "records_of (log_csv (disk ?s)) = [log_header]"
    by (simp add: started_def alice_disk_def records_of_def)
  from known_scan_logged [where now = "\<lambda>k. noon", OF a b c d e refl] a b c d e show ?thesis
    unfolding r by (simp (no_asm_use)) blast
qed




section \<open>Claims about the profile file\<close>



section \<open>Claims about the profile list\<close>

text \<open>
  C5, as amended. If saving the profile set fails with an I/O error, the profile list in
  memory is not left unchanged: \<open>form_save\<close> has already updated the matching profiles,
  or added the new profile, and \<open>delete_user\<close> has already removed the profile, before
  the save is tried; the error ends the operation with that list in memory, with
  \<open>users.csv\<close> as the failed save left it, and with the rest of the state as it was. The
  save fails exactly when the open of \<open>users.csv\<close> is refused or the device has no room
  for the header and all the profiles.
\<close>

theorem failed_save_keeps_change:
  assumes "normalize_uid U (uid_var s) \<noteq> []" and "str_strip U (nama_var s) \<noteq> []"
    and "M = (case find_user_by_uid U (users s) (normalize_uid U (uid_var s)) of
                Some existing \<Rightarrow>
                  map (\<lambda>u. if normalize_uid U (uid u) = normalize_uid U (uid_var s)
                           then u\<lparr>nama := Some (str_strip U (nama_var s)),
                                  umur := Some (str_strip U (umur_var s))\<rparr>
                           else u) (users s)
              | None \<Rightarrow>
                  users s @ [\<lparr>uid = normalize_uid U (uid_var s),
                              nama = Some (str_strip U (nama_var s)),
                              umur = Some (str_strip U (umur_var s))\<rparr>])"
    and "F = filter (\<lambda>u. normalize_uid U (uid u) \<noteq> normalize_uid U v) (users s)"
  shows "(\<forall>e d. save_users U M (disk s) = (Some e, d) \<longrightarrow>
            form_save U s = (Some e, s\<lparr>users := M, disk := d\<rparr>))
     \<and> (\<forall>e d. save_users U F (disk s) = (Some e, d) \<longrightarrow>
            delete_user U (Some v) True s = (Some e, s\<lparr>users := F, disk := d\<rparr>))
     \<and> (\<forall>us. (fst (save_users U us (disk s)) \<noteq> None)
            = (denied (users_csv (disk s)) \<or> (\<exists>k. users_room (disk s) = Some k \<and> k \<le> length us)))"
  using form_save_failed [OF assms(1,2,3)] delete_user_failed [OF assms(4)] save_users_fails_iff
  by blast

theorem failed_save_keeps_change_witness:
  "normalize_uid cpython_ucd (uid_var renaming_alice_full) \<noteq> []
   \<and> str_strip cpython_ucd (nama_var renaming_alice_full) \<noteq> []
   \<and> form_save cpython_ucd renaming_alice_full
       = (Some OSError, renaming_alice_full\<lparr>users := [alice\<lparr>nama := Some (lit ''Alicia''), umur := Some []\<rparr>],
            disk := (disk renaming_alice_full)\<lparr>users_csv := \<lparr>content = Some [users_header], denied = False\<rparr>\<rparr>\<rparr>)
   \<and> delete_user cpython_ucd (Some (lit ''AB12CD'')) True renaming_alice_locked
       = (Some PermissionError, renaming_alice_locked\<lparr>users := [], disk := disk renaming_alice_locked\<rparr>)"
proof -
  let ?s = renaming_alice_full and ?t = renaming_alice_locked
  have k: "normalize_uid cpython_ucd (uid_var ?s) = lit ''AB12CD''"
    "normalize_uid cpython_ucd (uid_var ?t) = lit ''AB12CD''"
    "normalize_uid cpython_ucd (lit ''AB12CD'') = lit ''AB12CD''"
    "normalize_uid cpython_ucd (uid alice) = lit ''AB12CD''"
    by (simp_all add: renaming_alice_full_def renaming_alice_locked_def alice_def eval_text)
  have n: "str_strip cpython_ucd (nama_var ?s) = lit ''Alicia''"
    "str_strip cpython_ucd (umur_var ?s) = []"
    "str_strip cpython_ucd (nama_var ?t) = lit ''Alicia''"
    by (simp_all add: renaming_alice_full_def renaming_alice_locked_def started_def eval_text)
  have ne: "lit ''AB12CD'' \<noteq> []" "lit ''Alicia'' \<noteq> []" by (simp_all add: lit_def)
  have u: "users ?s = [alice]" "disk ?s = alice_disk\<lparr>users_room := Some 1\<rparr>"
    "users ?t = [alice]" "disk ?t = locked_disk"
    by (simp_all add: renaming_alice_full_def renaming_alice_locked_def started_def)
  have f: "find_user_by_uid cpython_ucd (users ?s) (normalize_uid cpython_ucd (uid_var ?s)) = Some alice"
    by (simp add: k u find_alice)
  let ?M = "[alice\<lparr>nama := Some (lit ''Alicia''), umur := Some []\<rparr>]"
  have M: "?M = (case find_user_by_uid cpython_ucd (users ?s) (normalize_uid cpython_ucd (uid_var ?s)) of
                Some existing \<Rightarrow>
                  map (\<lambda>u. if normalize_uid cpython_ucd (uid u) = normalize_uid cpython_ucd (uid_var ?s)
                           then u\<lparr>nama := Some (str_strip cpython_ucd (nama_var ?s)),
                                  umur := Some (str_strip cpython_ucd (umur_var ?s))\<rparr>
                           else u) (users ?s)
              | None \<Rightarrow>
                  users ?s @ [\<lparr>uid = normalize_uid cpython_ucd (uid_var ?s),
                              nama = Some (str_strip cpython_ucd (nama_var ?s)),
                              umur = Some (str_strip cpython_ucd (umur_var ?s))\<rparr>])"
    unfolding f by (simp add: u k n)
  have a: "normalize_uid cpython_ucd (uid_var ?s) \<noteq> []" "str_strip cpython_ucd (nama_var ?s) \<noteq> []"
    "normalize_uid cpython_ucd (uid_var ?t) \<noteq> []" "str_strip cpython_ucd (nama_var ?t) \<noteq> []"
    by (simp_all add: k n ne)
  have sv: "save_users cpython_ucd ?M (disk ?s)
      = (Some OSError, (disk ?s)\<lparr>users_csv := \<lparr>content = Some [users_header], denied = False\<rparr>\<rparr>)"
    by (simp add: u save_users_def alice_disk_def)
  have F: "[] = filter (\<lambda>u. normalize_uid cpython_ucd (uid u) \<noteq> normalize_uid cpython_ucd (lit ''AB12CD''))
      (users ?t)"
    by (simp add: u k)
  have sd: "save_users cpython_ucd [] (disk ?t) = (Some PermissionError, disk ?t)"
    by (simp add: u save_users_def locked_disk_def)
  note 1 = failed_save_keeps_change [OF a(1,2) M refl, THEN conjunct1, rule_format, OF sv]
  note 2 = failed_save_keeps_change [OF a(3,4) refl F, THEN conjunct2, THEN conjunct1, rule_format, OF sd]
  from a(1,2) 1 2 show ?thesis by blast
qed

text \<open>
  The claim C5 as written fails: registering a first profile while \<open>users.csv\<close> is
  write-protected raises \<open>PermissionError\<close> and leaves the new profile in the list in
  memory, which was empty.
\<close>

theorem failed_save_changes_memory:
  "denied (users_csv (disk adding_alice_locked))
   \<and> users adding_alice_locked = []
   \<and> fst (form_save cpython_ucd adding_alice_locked) = Some PermissionError
   \<and> users (snd (form_save cpython_ucd adding_alice_locked))
       = [\<lparr>uid = lit ''AB12CD'', nama = Some (lit ''Alice''), umur = Some []\<rparr>]"
proof -
  let ?s = adding_alice_locked
  have k: "normalize_uid cpython_ucd (uid_var ?s) = lit ''AB12CD''"
    by (simp add: adding_alice_locked_def eval_text)
  have n: "str_strip cpython_ucd (nama_var ?s) = lit ''Alice''"
    "str_strip cpython_ucd (umur_var ?s) = []"
    by (simp_all add: adding_alice_locked_def started_def eval_text)
  have u: "users ?s = []" "disk ?s = locked_disk" by (simp_all add: adding_alice_locked_def started_def)
  have ne: "lit ''AB12CD'' \<noteq> []" "lit ''Alice'' \<noteq> []" by (simp_all add: lit_def)
  show ?thesis
    by (simp add: form_save_def Let_def k n u ne find_user_by_uid_def save_users_def locked_disk_def)
qed

text \<open>
  C7. Starting from a profile list whose identifiers are pairwise distinct under
  canonicalization and in stored form, as the program holds them, \<open>form_save\<close> and
  \<open>delete_user\<close> leave a list whose identifiers are again pairwise distinct under
  canonicalization and in stored form, whether the save succeeds (the list is then
  reloaded from the file) or fails, under the three facts of Python's casing tables.
  Every list that \<open>load_users\<close> returns has its identifiers in stored form.
\<close>

theorem uniqueness_preserved:
  assumes "casing_tables U" and "\<forall>u\<in>set (users s). stored U (uid u)" and "unique_uids U (users s)"
  shows "unique_uids U (users (snd (form_save U s)))
     \<and> (\<forall>u\<in>set (users (snd (form_save U s))). stored U (uid u))
     \<and> unique_uids U (users (snd (delete_user U sel confirm s)))
     \<and> (\<forall>u\<in>set (users (snd (delete_user U sel confirm s))). stored U (uid u))
     \<and> (\<forall>d us. load_users U d = Inr us \<longrightarrow> (\<forall>u\<in>set us. stored U (uid u)))"
  using form_save_invariant [OF assms] delete_user_invariant [OF assms(2,3)]
    stored_load_users [OF assms(1)] by blast

theorem uniqueness_preserved_witness:
  "casing_tables cpython_ucd
   \<and> list_all (\<lambda>u. stored cpython_ucd (uid u)) (users adding_jan)
   \<and> unique_uids cpython_ucd (users adding_jan)
   \<and> unique_uids cpython_ucd (users (snd (form_save cpython_ucd adding_jan)))
   \<and> list_all (\<lambda>u. stored cpython_ucd (uid u)) (users (snd (form_save cpython_ucd adding_jan)))
   \<and> unique_uids cpython_ucd (users (snd (delete_user cpython_ucd (Some (lit ''AB12CD'')) True adding_jan)))"
proof -
  let ?s = adding_jan
  have u: "users ?s = [alice]" by (simp add: adding_jan_def started_def)
  have a: "casing_tables cpython_ucd" by (rule cpython_casing_tables)
  have b: "list_all (\<lambda>u. stored cpython_ucd (uid u)) (users ?s)" by (simp add: u stored_samples)
  then have b': "\<forall>u\<in>set (users ?s). stored cpython_ucd (uid u)" by (simp add: list_all_iff)
  have c: "unique_uids cpython_ucd (users ?s)" by (simp add: u unique_uids_def)
  from uniqueness_preserved [OF a b' c, of "Some (lit ''AB12CD'')" True] a b c show ?thesis
    by (simp add: list_all_iff)
qed

section \<open>Further properties\<close>

text \<open>
  Initialization is idempotent: \<open>ensure_files\<close> creates each missing file with its header
  row and leaves an existing file as it is, so running it again changes nothing.
\<close>

theorem ensure_files_idempotent:
  assumes "ensure_files d = (None, d')"
  shows "ensure_files d' = (None, d')
     \<and> content (users_csv d') = Some (case content (users_csv d) of None \<Rightarrow> [users_header] | Some rows \<Rightarrow> rows)
     \<and> content (log_csv d') = Some (case content (log_csv d) of None \<Rightarrow> [log_header] | Some rows \<Rightarrow> rows)"
  using assms
  by (auto simp: ensure_files_def Let_def split: if_splits option.splits)

theorem ensure_files_idempotent_witness:
  "ensure_files \<lparr>users_csv = \<lparr>content = None, denied = False\<rparr>,
                 log_csv = \<lparr>content = None, denied = False\<rparr>, users_room = None\<rparr> = (None, fresh_disk)
   \<and> ensure_files fresh_disk = (None, fresh_disk)"
proof -
  have a: "ensure_files \<lparr>users_csv = \<lparr>content = None, denied = False\<rparr>,
                 log_csv = \<lparr>content = None, denied = False\<rparr>, users_room = None\<rparr> = (None, fresh_disk)"
    by (simp add: ensure_files_def fresh_disk_def)
  from ensure_files_idempotent [OF a] a show ?thesis by simp
qed

text \<open>
  The deletion scenario: after the profile shown as \<open>v\<close> is deleted from a list of stored
  identifiers, a scan with the same canonical identifier finds no profile; it is staged in
  the form, the bell rings, and no attendance record is written.
\<close>

theorem deleted_profile_is_staged:
  assumes "\<forall>u\<in>set (users s). stored U (uid u)"
    and "normalize_uid U i = normalize_uid U v"
    and "s1 = snd (delete_user U (Some v) True s)"
    and "s2 = snd (on_uid_received U now i s1)"
  shows "find_user_by_uid U (users s1) i = None
     \<and> fst (on_uid_received U now i s1) = None
     \<and> uid_var s2 = i \<and> bells s2 = Suc (bells s1) \<and> disk s2 = disk s1"
proof -
  let ?F = "filter (\<lambda>u. normalize_uid U (uid u) \<noteq> normalize_uid U v) (users s)"
  have F: "find_user_by_uid U ?F i = None" "\<forall>u\<in>set ?F. stored U (uid u)"
    using assms(1,2) by (simp_all add: find_user_by_uid_None)
  have R: "find_user_by_uid U (map (reloaded U) ?F) i = None"
    using F(1) unfolding map_reloaded_stored [OF F(2)] by (simp add: find_user_by_uid_None)
  obtain r d where sv: "save_users U ?F (disk s) = (r, d)" by (cases "save_users U ?F (disk s)")
  have "users s1 = ?F \<or> users s1 = map (reloaded U) ?F"
  proof (cases r)
    case None
    with delete_user_saved [OF refl, of U v s d] sv show ?thesis by (simp add: assms(3))
  next
    case (Some e)
    with delete_user_failed [OF refl, of U v s e d] sv show ?thesis by (simp add: assms(3))
  qed
  with F(1) R have f: "find_user_by_uid U (users s1) i = None" by auto
  then show ?thesis by (simp add: assms(4) on_uid_received_unknown)
qed

theorem deleted_profile_is_staged_witness:
  "list_all (\<lambda>u. stored cpython_ucd (uid u)) (users (started [alice] alice_disk))
   \<and> normalize_uid cpython_ucd (lit ''ab12cd'') = normalize_uid cpython_ucd (lit ''AB12CD'')
   \<and> uid_var (snd (on_uid_received cpython_ucd noon (lit ''ab12cd'')
        (snd (delete_user cpython_ucd (Some (lit ''AB12CD'')) True (started [alice] alice_disk)))))
      = lit ''ab12cd''"
proof -
  let ?s = "started [alice] alice_disk"
  have b: "list_all (\<lambda>u. stored cpython_ucd (uid u)) (users ?s)"
    by (simp add: started_def stored_samples)
  then have b': "\<forall>u\<in>set (users ?s). stored cpython_ucd (uid u)" by (simp add: list_all_iff)
  have c: "normalize_uid cpython_ucd (lit ''ab12cd'') = normalize_uid cpython_ucd (lit ''AB12CD'')"
    by (simp add: eval_text)
  from deleted_profile_is_staged [OF b' c refl refl, where now = noon] b c show ?thesis by simp
qed

end
